theory Spec2Isabelle
  imports Main "HOL-Library.AList"
begin

section \<open>Strings\<close>

text \<open>
  A Python \<open>str\<close> is modelled as a HOL \<open>string\<close>: a list of 8-bit characters, read
  as the code points 0 to 255. The character classes below are those of Python for
  that range.
\<close>

text \<open>\<open>str.isspace\<close> on one character: the class used by \<open>str.strip()\<close> and
  \<open>str.split()\<close> without argument.\<close>

definition is_space :: "char \<Rightarrow> bool" where
  "is_space c =
     (let n = (of_char c :: nat)
      in (9 \<le> n \<and> n \<le> 13) \<or> (28 \<le> n \<and> n \<le> 32) \<or> n = 133 \<or> n = 160)"

text \<open>\<open>str.isupper\<close> on one character.\<close>

definition is_upper :: "char \<Rightarrow> bool" where
  "is_upper c =
     (let n = (of_char c :: nat)
      in (65 \<le> n \<and> n \<le> 90) \<or> (192 \<le> n \<and> n \<le> 214) \<or> (216 \<le> n \<and> n \<le> 222))"

text \<open>The class \<open>\w\<close> of \<open>re\<close> on a \<open>str\<close> pattern: alphanumeric, or the underscore.\<close>

definition is_word :: "char \<Rightarrow> bool" where
  "is_word c =
     (let n = (of_char c :: nat)
      in (48 \<le> n \<and> n \<le> 57) \<or> (65 \<le> n \<and> n \<le> 90) \<or> n = 95 \<or> (97 \<le> n \<and> n \<le> 122)
         \<or> n = 170 \<or> n = 178 \<or> n = 179 \<or> n = 181 \<or> n = 185 \<or> n = 186
         \<or> (188 \<le> n \<and> n \<le> 190) \<or> (192 \<le> n \<and> n \<le> 214)
         \<or> (216 \<le> n \<and> n \<le> 246) \<or> (248 \<le> n \<and> n \<le> 255))"

text \<open>\<open>string.punctuation\<close>.\<close>

definition punctuation :: string where
  "punctuation = [CHR ''!'', CHR 0x22, CHR ''#'', CHR ''$'', CHR ''%'', CHR ''&'', CHR 0x27,
     CHR ''('', CHR '')'', CHR ''*'', CHR ''+'', CHR '','', CHR ''-'', CHR ''.'', CHR ''/'',
     CHR '':'', CHR '';'', CHR ''<'', CHR ''='', CHR ''>'', CHR ''?'', CHR ''@'', CHR ''['',
     CHR 0x5C, CHR '']'', CHR ''^'', CHR ''_'', CHR 0x60, CHR ''{'', CHR ''|'', CHR ''}'',
     CHR ''~'']"

text \<open>\<open>s.startswith(p)\<close>.\<close>

fun startswith :: "string \<Rightarrow> string \<Rightarrow> bool" where
  "startswith s [] = True"
| "startswith [] (p # ps) = False"
| "startswith (c # cs) (p # ps) = (c = p \<and> startswith cs ps)"

text \<open>\<open>s.strip()\<close>.\<close>

definition strip :: "string \<Rightarrow> string" where
  "strip s = rev (dropWhile is_space (rev (dropWhile is_space s)))"

text \<open>
  \<open>s.split(sep)\<close> for a separator that is not empty: the occurrences of \<open>sep\<close> are
  found from the left and do not overlap; \<open>acc\<close> holds the current fragment, reversed.
  Python raises ValueError on an empty separator; every separator of the program is a
  literal that is not empty.
\<close>

function split_from :: "string \<Rightarrow> string \<Rightarrow> string \<Rightarrow> string list" where
  "split_from sep acc [] = [rev acc]"
| "split_from sep acc (c # cs) =
     (if sep \<noteq> [] \<and> startswith (c # cs) sep
      then rev acc # split_from sep [] (drop (length sep) (c # cs))
      else split_from sep (c # acc) cs)"
  by pat_completeness auto
termination
  by (relation "measure (\<lambda>(sep, acc, s). length s)") (auto simp: neq_Nil_conv)

declare split_from.simps [simp del]

definition split_str :: "string \<Rightarrow> string \<Rightarrow> string list" where
  "split_str sep s = split_from sep [] s"

section \<open>Type-String Parser\<close>

fun get_proper_type :: "string \<Rightarrow> string" where
  "get_proper_type t =
     (if t = ''Messages'' then ''Message''
      else if t = ''Float number'' then ''Float''
      else if t = ''Int'' then ''Integer''
      else if t = ''True'' \<or> t = ''Bool'' then ''Boolean''
      else t)"

text \<open>The first lines of \<open>clean_tg_type\<close>: the prefix that is kept, and the rest.\<close>

definition array_prefix :: "string \<Rightarrow> string \<times> string" where
  "array_prefix t =
     (if startswith t ''Array of ''
      then (''Array of '', drop (length ''Array of '') t)
      else ('''', t))"

definition clean_tg_type :: "string \<Rightarrow> string list" where
  "clean_tg_type t0 =
     (let (pref, t) = array_prefix t0;
          fixed_ors = map strip (split_str '' or '' t);
          fixed_ands = concat (map (\<lambda>fo. map strip (split_str '' and '' fo)) fixed_ors);
          fixed_commas = concat (map (\<lambda>fa. map strip (split_str '', '' fa)) fixed_ands)
      in map (\<lambda>x. pref @ get_proper_type x) fixed_commas)"

subsection \<open>The parser as the specification words it\<close>

text \<open>
  The specification's Type-String Parser: one optional leading array marker is removed,
  the rest is split on \<open>" or "\<close>, then \<open>" and "\<close>, then \<open>", "\<close>, the alias table is
  applied to each fragment and the marker is put back. Nothing is trimmed.
\<close>

definition clean_tg_type_spec :: "string \<Rightarrow> string list" where
  "clean_tg_type_spec t0 =
     (let (pref, t) = array_prefix t0;
          ors = split_str '' or '' t;
          ands = concat (map (split_str '' and '') ors);
          commas = concat (map (split_str '', '') ands)
      in map (\<lambda>x. pref @ get_proper_type x) commas)"

text \<open>The same pipeline with every fragment trimmed after each of the three splits.\<close>

definition split_trim :: "string \<Rightarrow> string list \<Rightarrow> string list" where
  "split_trim sep frags = map strip (concat (map (split_str sep) frags))"

definition clean_tg_type_trimming :: "string \<Rightarrow> string list" where
  "clean_tg_type_trimming t0 =
     (let (pref, t) = array_prefix t0
      in map (\<lambda>x. pref @ get_proper_type x)
           (split_trim '', '' (split_trim '' and '' (split_trim '' or '' [t]))))"

text \<open>No fragment produced by any of the three splits has white space at either end.\<close>

definition trimmed_fragments :: "string \<Rightarrow> bool" where
  "trimmed_fragments t0 =
     list_all (\<lambda>a. strip a = a \<and>
        list_all (\<lambda>b. strip b = b \<and>
           list_all (\<lambda>c. strip c = c) (split_str '', '' b)) (split_str '' and '' a))
       (split_str '' or '' (snd (array_prefix t0)))"

section \<open>The registry\<close>

text \<open>
  A field is the dictionary built by \<open>get_fields\<close>: it always has its four keys. An
  entity is a dictionary whose keys other than \<open>name\<close> may be absent: \<open>None\<close> is the
  absent key (the key \<open>fields\<close> is \<open>entity_fields\<close> here). A Python dictionary keeps its keys in insertion order, and assigning to a
  key that exists keeps its place: an association list under \<open>AList.update\<close>.
\<close>

record field =
  field_name :: string
  field_types :: "string list"
  field_required :: bool
  field_description :: string

record entity =
  name :: string
  href :: "string option"
  description :: "string list option"
  entity_fields :: "field list option"
  subtypes :: "string list option"
  subtype_of :: "string list option"
  returns :: "string list option"

record registry =
  methods :: "(string \<times> entity) list"
  types :: "(string \<times> entity) list"

definition TG_CORE_TYPES :: "string list" where
  "TG_CORE_TYPES = [''String'', ''Boolean'', ''Integer'', ''Float'']"

definition ROOT_URL :: string where
  "ROOT_URL = ''https://core.telegram.org''"

definition API_URL :: string where
  "API_URL = ROOT_URL @ ''/bots/api''"

definition METHODS :: string where
  "METHODS = ''methods''"

definition TYPES :: string where
  "TYPES = ''types''"

definition APPROVED_NO_SUBTYPES :: "string list" where
  "APPROVED_NO_SUBTYPES = [''VoiceChatStarted'', ''InputFile'', ''CallbackGame'']"

text \<open>
  An exception that nothing catches ends the run; with it goes what the run had printed
  on standard output before. \<open>exit(1)\<close> raises \<open>SystemExit\<close>.
\<close>

datatype error = KeyError | AttributeError | IndexError | SystemExit nat

type_synonym 'a result = "(error \<times> string list) + 'a"

text \<open>\<open>items[curr_type]\<close> and \<open>items[curr_type][curr_name]\<close>; \<open>None\<close> is the missing key.\<close>

definition get_category :: "registry \<Rightarrow> string \<Rightarrow> (string \<times> entity) list option" where
  "get_category items ct =
     (if ct = METHODS then Some (methods items)
      else if ct = TYPES then Some (types items)
      else None)"

definition get_entity :: "registry \<Rightarrow> string \<Rightarrow> string \<Rightarrow> entity option" where
  "get_entity items ct cn =
     (case get_category items ct of None \<Rightarrow> None | Some d \<Rightarrow> map_of d cn)"

text \<open>\<open>items[curr_type][curr_name] = e\<close>, for one of the two categories.\<close>

definition put_entity :: "registry \<Rightarrow> string \<Rightarrow> string \<Rightarrow> entity \<Rightarrow> registry" where
  "put_entity items ct cn e =
     (if ct = METHODS then items\<lparr>methods := AList.update cn e (methods items)\<rparr>
      else if ct = TYPES then items\<lparr>types := AList.update cn e (types items)\<rparr>
      else items)"

text \<open>\<open>{"name": curr_name}\<close>.\<close>

definition new_entity :: "string \<Rightarrow> entity" where
  "new_entity cn = \<lparr>name = cn, href = None, description = None, entity_fields = None,
     subtypes = None, subtype_of = None, returns = None\<rparr>"

text \<open>The truth value of \<open>d.get(key)\<close> for a string and for a list.\<close>

definition truthy :: "'a list option \<Rightarrow> bool" where
  "truthy v = (case v of None \<Rightarrow> False | Some xs \<Rightarrow> xs \<noteq> [])"

text \<open>\<open>d.get(key, [])\<close>.\<close>

definition get_or_empty :: "'a list option \<Rightarrow> 'a list" where
  "get_or_empty v = (case v of None \<Rightarrow> [] | Some xs \<Rightarrow> xs)"

section \<open>Return-Type Inferrer\<close>

text \<open>
  The regular expressions are searched with \<open>re.IGNORECASE\<close>. Their literals are lower
  case ASCII letters, spaces and a comma: a character of the text matches a literal when
  its lower case is the literal, and below code point 256 only the ASCII capitals have an
  ASCII lower case.
\<close>

definition lower_ascii :: "char \<Rightarrow> char" where
  "lower_ascii c =
     (let n = (of_char c :: nat) in if 65 \<le> n \<and> n \<le> 90 then char_of (n + 32) else c)"

fun startswith_ci :: "string \<Rightarrow> string \<Rightarrow> bool" where
  "startswith_ci s [] = True"
| "startswith_ci [] (p # ps) = False"
| "startswith_ci (c # cs) (p # ps) = (lower_ascii c = p \<and> startswith_ci cs ps)"

definition not_dot :: "char \<Rightarrow> bool" where
  "not_dot c = (c \<noteq> CHR ''.'')"

text \<open>
  \<open>re.search("(?:on success,|returns)([^.]*)(?:on success)?", s, re.IGNORECASE)\<close>, its
  group 1: the match starts at the leftmost place where one of the two words is; the
  greedy class takes every character up to the next full stop or the end, where the
  optional last group matches empty.
\<close>

fun search_returns :: "string \<Rightarrow> string option" where
  "search_returns [] = None"
| "search_returns (c # cs) =
     (if startswith_ci (c # cs) ''on success,''
      then Some (takeWhile not_dot (drop (length ''on success,'') (c # cs)))
      else if startswith_ci (c # cs) ''returns''
      then Some (takeWhile not_dot (drop (length ''returns'') (c # cs)))
      else search_returns cs)"

text \<open>
  \<open>re.search("([^.]*)(?:is returned)", s, re.IGNORECASE)\<close>, its group 1. At a start
  the greedy class takes \<open>j\<close> characters, as many as are no full stop, and gives them
  back one by one until \<open>is returned\<close> follows; when no \<open>j\<close> does, the search moves to
  the next start.
\<close>

fun is_returned_at :: "string \<Rightarrow> nat \<Rightarrow> string option" where
  "is_returned_at s 0 = (if startswith_ci s ''is returned'' then Some [] else None)"
| "is_returned_at s (Suc j) =
     (if startswith_ci (drop (Suc j) s) ''is returned'' then Some (take (Suc j) s)
      else is_returned_at s j)"

fun search_is_returned :: "string \<Rightarrow> string option" where
  "search_is_returned [] = is_returned_at [] 0"
| "search_is_returned (c # cs) =
     (case is_returned_at (c # cs) (length (takeWhile not_dot (c # cs))) of
        Some g \<Rightarrow> Some g
      | None \<Rightarrow> search_is_returned cs)"

text \<open>
  \<open>re.search(r"(?:array of )+(\w*)", s, re.IGNORECASE)\<close>, its group 1: at the leftmost
  \<open>array of \<close> the repetition takes every further \<open>array of \<close>, then the word
  characters that follow (none is a match too, so nothing is given back).
\<close>

function skip_array_of :: "string \<Rightarrow> string" where
  "skip_array_of s =
     (if startswith_ci s ''array of '' then skip_array_of (drop (length ''array of '') s)
      else s)"
  by pat_completeness auto
termination
  by (relation "measure length") (auto simp: neq_Nil_conv elim: startswith_ci.elims)

declare skip_array_of.simps [simp del]

fun search_array_of :: "string \<Rightarrow> string option" where
  "search_array_of [] = None"
| "search_array_of (c # cs) =
     (if startswith_ci (c # cs) ''array of ''
      then Some (takeWhile is_word (skip_array_of (drop (length ''array of '') (c # cs))))
      else search_array_of cs)"

text \<open>\<open>s.split()\<close>: the words between runs of white space; \<open>acc\<close> is the current
  word, reversed.\<close>

fun words_from :: "string \<Rightarrow> string \<Rightarrow> string list" where
  "words_from acc [] = (if acc = [] then [] else [rev acc])"
| "words_from acc (c # cs) =
     (if is_space c
      then (if acc = [] then words_from [] cs else rev acc # words_from [] cs)
      else words_from (c # acc) cs)"

definition split_ws :: "string \<Rightarrow> string list" where
  "split_ws s = words_from [] s"

text \<open>\<open>ret.translate(str.maketrans("", "", string.punctuation))\<close>.\<close>

definition remove_punctuation :: "string \<Rightarrow> string" where
  "remove_punctuation s = filter (\<lambda>c. c \<notin> set punctuation) s"

text \<open>\<open>ret[0].isupper()\<close>; a word of \<open>split()\<close> is never empty.\<close>

definition first_isupper :: "string \<Rightarrow> bool" where
  "first_isupper ret = (case ret of [] \<Rightarrow> False | c # _ \<Rightarrow> is_upper c)"

text \<open>\<open>sep.join(xs)\<close>.\<close>

fun join :: "string \<Rightarrow> string list \<Rightarrow> string" where
  "join sep [] = []"
| "join sep [x] = x"
| "join sep (x # y # ys) = x @ sep @ join sep (y # ys)"

text \<open>\<open>items[curr_type][curr_name]["returns"] = rets\<close>.\<close>

definition set_returns :: "string \<Rightarrow> string \<Rightarrow> string list \<Rightarrow> registry \<Rightarrow> registry result" where
  "set_returns curr_type curr_name rets items =
     (case get_entity items curr_type curr_name of
        None \<Rightarrow> Inl (KeyError, [])
      | Some e \<Rightarrow> Inr (put_entity items curr_type curr_name (e\<lparr>returns := Some rets\<rparr>)))"

definition extract_return_type ::
  "string \<Rightarrow> string \<Rightarrow> string \<Rightarrow> registry \<Rightarrow> registry result" where
  "extract_return_type curr_type curr_name ret_str items =
     (case search_array_of ret_str of
        Some g \<Rightarrow>
          (let ret = clean_tg_type g;
               rets = map (\<lambda>r. ''Array of '' @ r) ret
           in set_returns curr_type curr_name rets items)
      | None \<Rightarrow>
          (let words = split_ws ret_str;
               rets = concat (map (\<lambda>ret.
                  filter (\<lambda>r. first_isupper ret) (clean_tg_type (remove_punctuation ret)))
                  words)
           in set_returns curr_type curr_name rets items))"

definition get_method_return_type ::
  "string \<Rightarrow> string \<Rightarrow> string list \<Rightarrow> registry \<Rightarrow> registry result" where
  "get_method_return_type curr_name curr_type description_items items =
     (let description = join [CHR 0x0A] description_items
      in case search_returns description of
           Some g \<Rightarrow> extract_return_type curr_type curr_name (strip g) items
         | None \<Rightarrow>
            (case search_is_returned description of
               Some g \<Rightarrow> extract_return_type curr_type curr_name (strip g) items
             | None \<Rightarrow> Inr items))"

section \<open>The document\<close>

text \<open>
  The markup tree is the library's: a node is what the program reads from it. A cell of
  a table row has its text (\<open>get_text()\<close>), its normalized text (the value of
  \<open>clean_tg_description\<close> on it) and its markup (what \<open>print\<close> shows). A header has the
  result of \<open>find("a")\<close>, an anchor with its \<open>name\<close> and \<open>href\<close> attributes or
  nothing, and its text. A paragraph has its normalized text, a table the rows of its
  \<open>tbody\<close>, each the list of its \<open>td\<close> cells, or no \<open>tbody\<close>, a list the normalized
  texts of its \<open>li\<close> items. Any other child of the page is \<open>Other\<close>.
\<close>

record cell =
  cell_text :: string
  cell_description :: string
  cell_markup :: string

record anchor =
  anchor_name :: "string option"
  anchor_href :: "string option"

datatype node =
    H3
  | Hr
  | H4 "anchor option" string
  | P string
  | Table "cell list list option"
  | Ul "string list"
  | Other

section \<open>Field Extractor\<close>

text \<open>\<open>str(n)\<close> for a length.\<close>

function string_of_nat :: "nat \<Rightarrow> string" where
  "string_of_nat n =
     (if n < 10 then [char_of (48 + n)]
      else string_of_nat (n div 10) @ [char_of (48 + n mod 10)])"
  by pat_completeness auto
termination
  by (relation "measure id") auto

declare string_of_nat.simps [simp del]

text \<open>The five lines printed before \<open>exit(1)\<close>; \<open>print\<close> puts a space between its
  arguments and shows a list of tags between brackets.\<close>

definition unexpected_state :: "string \<Rightarrow> string \<Rightarrow> cell list \<Rightarrow> string list" where
  "unexpected_state curr_type curr_name children =
     [''An unexpected state has occurred!'',
      ''Type: '' @ curr_type,
      ''Name: '' @ curr_name,
      ''Number of children: '' @ string_of_nat (length children),
      ''['' @ join '', '' (map cell_markup children) @ '']'']"

text \<open>The loop over the rows of the table; \<open>fs\<close> is the list \<open>fields\<close> so far.\<close>

fun get_fields_rows ::
  "string \<Rightarrow> string \<Rightarrow> cell list list \<Rightarrow> field list \<Rightarrow> field list result" where
  "get_fields_rows curr_name curr_type [] fs = Inr fs"
| "get_fields_rows curr_name curr_type (children # trs) fs =
     (if curr_type = TYPES \<and> length children = 3 then
        (let desc = cell_description (children ! 2)
         in get_fields_rows curr_name curr_type trs
              (fs @ [\<lparr>field_name = cell_text (children ! 0),
                      field_types = clean_tg_type (cell_text (children ! 1)),
                      field_required = (\<not> startswith desc ''Optional. ''),
                      field_description = desc\<rparr>]))
      else if curr_type = METHODS \<and> length children = 4 then
        get_fields_rows curr_name curr_type trs
          (fs @ [\<lparr>field_name = cell_text (children ! 0),
                  field_types = clean_tg_type (cell_text (children ! 1)),
                  field_required = (cell_text (children ! 2) = ''Yes''),
                  field_description = cell_description (children ! 3)\<rparr>])
      else Inl (SystemExit 1, unexpected_state curr_type curr_name children))"

definition get_fields ::
  "string \<Rightarrow> string \<Rightarrow> cell list list option \<Rightarrow> registry \<Rightarrow> registry result" where
  "get_fields curr_name curr_type x items =
     (case x of
        None \<Rightarrow> Inl (AttributeError, [])
      | Some trs \<Rightarrow>
         (case get_fields_rows curr_name curr_type trs [] of
            Inl err \<Rightarrow> Inl err
          | Inr fs \<Rightarrow>
             (case get_entity items curr_type curr_name of
                None \<Rightarrow> Inl (KeyError, [])
              | Some e \<Rightarrow>
                  Inr (put_entity items curr_type curr_name (e\<lparr>entity_fields := Some fs\<rparr>)))))"

section \<open>Subtype and Enumeration Extractor\<close>

text \<open>
  \<open>x\<close> is the list of the normalized texts of the items, \<open>list_contents\<close>. The last
  statement reads \<open>items[curr_type][curr_name]["description"]\<close> before it extends it:
  KeyError when the key is absent.
\<close>

definition get_subtypes ::
  "string \<Rightarrow> string \<Rightarrow> string list \<Rightarrow> registry \<Rightarrow> registry result" where
  "get_subtypes curr_name curr_type x items =
     (if curr_name = ''InputFile'' then Inr items
      else
        (let list_contents = x
         in case get_entity items curr_type curr_name of
              None \<Rightarrow> Inl (KeyError, [])
            | Some e \<Rightarrow>
               (let e1 = (if curr_type = TYPES then e\<lparr>subtypes := Some list_contents\<rparr> else e)
                in case description e1 of
                     None \<Rightarrow> Inl (KeyError, [])
                   | Some d \<Rightarrow>
                       Inr (put_entity items curr_type curr_name
                             (e1\<lparr>description := Some (d @ map (\<lambda>s. ''- '' @ s) list_contents)\<rparr>)))))"

section \<open>Entity Segmenter\<close>

text \<open>\<open>get_type_and_name\<close>; \<open>x.text[0]\<close> is an IndexError on an empty text.\<close>

definition get_type_and_name ::
  "string \<Rightarrow> anchor \<Rightarrow> registry \<Rightarrow> (string \<times> string \<times> registry) result" where
  "get_type_and_name x a items =
     (case x of
        [] \<Rightarrow> Inl (IndexError, [])
      | c # _ \<Rightarrow>
         (let curr_type = (if is_upper c then TYPES else METHODS);
              curr_name = x;
              e = new_entity curr_name;
              e1 = (if truthy (anchor_href a)
                    then e\<lparr>href := Some (API_URL @ the (anchor_href a))\<rparr> else e)
          in Inr (curr_name, curr_type, put_entity items curr_type curr_name e1)))"

text \<open>The state of the loop of \<open>retrieve_api_info\<close>.\<close>

record walk_state =
  curr_type :: string
  curr_name :: string
  items :: registry

text \<open>
  The body of the loop from \<open>if not curr_type or not curr_name\<close> on. First the three
  statements on \<open>x.name\<close>: a paragraph, a table or a list goes to the open entity.
\<close>

definition deliver :: "walk_state \<Rightarrow> node \<Rightarrow> registry result" where
  "deliver st x =
     (case x of
        P text \<Rightarrow>
          (case get_entity (items st) (curr_type st) (curr_name st) of
             None \<Rightarrow> Inl (KeyError, [])
           | Some e \<Rightarrow>
               Inr (put_entity (items st) (curr_type st) (curr_name st)
                     (e\<lparr>description := Some (get_or_empty (description e) @ [text])\<rparr>)))
      | Table tbody \<Rightarrow> get_fields (curr_name st) (curr_type st) tbody (items st)
      | Ul lis \<Rightarrow> get_subtypes (curr_name st) (curr_type st) lis (items st)
      | _ \<Rightarrow> Inr (items st))"

text \<open>Then the last statement: the return type of a method that has a description is
  inferred again, on the registry \<open>items1\<close> left by the statements before.\<close>

definition infer_returns :: "walk_state \<Rightarrow> registry \<Rightarrow> walk_state result" where
  "infer_returns st items1 =
     (if curr_type st = METHODS then
        (case get_entity items1 (curr_type st) (curr_name st) of
           None \<Rightarrow> Inl (KeyError, [])
         | Some e \<Rightarrow>
            (if truthy (description e) then
               (case get_method_return_type (curr_name st) (curr_type st)
                       (get_or_empty (description e)) items1 of
                  Inl err \<Rightarrow> Inl err
                | Inr items2 \<Rightarrow> Inr (st\<lparr>items := items2\<rparr>))
             else Inr (st\<lparr>items := items1\<rparr>)))
      else Inr (st\<lparr>items := items1\<rparr>))"

definition route :: "walk_state \<Rightarrow> node \<Rightarrow> walk_state result" where
  "route st x =
     (if curr_type st = [] \<or> curr_name st = [] then Inr st
      else
        (case deliver st x of
           Inl err \<Rightarrow> Inl err
         | Inr items1 \<Rightarrow> infer_returns st items1))"

text \<open>One turn of the loop of \<open>retrieve_api_info\<close> on the node \<open>x\<close>.\<close>

definition step :: "walk_state \<Rightarrow> node \<Rightarrow> walk_state result" where
  "step st x =
     (case x of
        H3 \<Rightarrow> route (st\<lparr>curr_name := [], curr_type := []\<rparr>) x
      | Hr \<Rightarrow> route (st\<lparr>curr_name := [], curr_type := []\<rparr>) x
      | H4 found text \<Rightarrow>
         (case found of
            None \<Rightarrow> Inl (AttributeError, [])
          | Some a \<Rightarrow>
             (if truthy (anchor_name a) \<and> CHR ''-'' \<in> set (the (anchor_name a))
              then Inr (st\<lparr>curr_name := [], curr_type := []\<rparr>)
              else
                (case get_type_and_name text a (items st) of
                   Inl err \<Rightarrow> Inl err
                 | Inr (cn, ct, items1) \<Rightarrow>
                     route \<lparr>curr_type = ct, curr_name = cn, items = items1\<rparr> x)))
      | _ \<Rightarrow> route st x)"

fun run_nodes :: "walk_state \<Rightarrow> node list \<Rightarrow> walk_state result" where
  "run_nodes st [] = Inr st"
| "run_nodes st (x # xs) =
     (case step st x of Inl err \<Rightarrow> Inl err | Inr st1 \<Rightarrow> run_nodes st1 xs)"

definition initial_context :: walk_state where
  "initial_context = \<lparr>curr_type = [], curr_name = [], items = \<lparr>methods = [], types = []\<rparr>\<rparr>"

text \<open>\<open>retrieve_api_info\<close> on the children of the page's content node.\<close>

definition retrieve_api_info :: "node list \<Rightarrow> registry result" where
  "retrieve_api_info nodes =
     (case run_nodes initial_context nodes of
        Inl err \<Rightarrow> Inl err
      | Inr st \<Rightarrow> Inr (items st))"

section \<open>Schema Validator\<close>

text \<open>\<open>while t.startswith("Array of "): t = t[len("Array of "):]\<close>.\<close>

function strip_arrays :: "string \<Rightarrow> string" where
  "strip_arrays t =
     (if startswith t ''Array of '' then strip_arrays (drop (length ''Array of '') t) else t)"
  by pat_completeness auto
termination
  by (relation "measure length") (auto simp: neq_Nil_conv elim: startswith.elims)

declare strip_arrays.simps [simp del]

text \<open>
  What a pass of the validator changes: its flag, the lines it prints, and the registry
  (the types pass writes \<open>subtype_of\<close>).
\<close>

record vstate =
  issue_found :: bool
  printed :: "string list"
  reg :: registry

definition report :: "string \<Rightarrow> vstate \<Rightarrow> vstate" where
  "report line vs = vs\<lparr>printed := printed vs @ [line], issue_found := True\<rparr>"

subsection \<open>Types pass\<close>

text \<open>\<open>for st in subtypes\<close>, for the type \<open>t\<close>.\<close>

fun subtypes_loop :: "string \<Rightarrow> string list \<Rightarrow> vstate \<Rightarrow> vstate" where
  "subtypes_loop t [] vs = vs"
| "subtypes_loop t (st # sts) vs =
     subtypes_loop t sts
       (case map_of (types (reg vs)) st of
          Some e \<Rightarrow>
            vs\<lparr>reg := (reg vs)\<lparr>types :=
                  AList.update st (e\<lparr>subtype_of := Some (get_or_empty (subtype_of e) @ [t])\<rparr>)
                    (types (reg vs))\<rparr>\<rparr>
        | None \<Rightarrow> report (''TYPE '' @ t @ '' USES INVALID SUBTYPE '' @ st) vs)"

text \<open>
  \<open>for param in fields\<close> of the types pass. The inner loop \<open>for t in types\<close> assigns
  the variable \<open>t\<close> of the outer loop and holds the \<open>while\<close> only; the test comes after
  it, on the value \<open>t\<close> is left with.
\<close>

fun type_fields_loop :: "string \<Rightarrow> field list \<Rightarrow> vstate \<Rightarrow> vstate" where
  "type_fields_loop t [] vs = vs"
| "type_fields_loop t (param # params) vs =
     (let t1 = foldl (\<lambda>t x. strip_arrays x) t (field_types param)
      in type_fields_loop t1 params
           (if map_of (types (reg vs)) t1 = None \<and> t1 \<notin> set TG_CORE_TYPES
            then report (''UNKNOWN FIELD TYPE '' @ t1) vs
            else vs))"

text \<open>The body of the loop of \<open>verify_type_parameters\<close> for the key \<open>t\<close>.\<close>

definition verify_type :: "string \<Rightarrow> vstate \<Rightarrow> vstate" where
  "verify_type t vs =
     (case map_of (types (reg vs)) t of
        None \<Rightarrow> vs
      | Some values \<Rightarrow>
         (if \<not> truthy (href values) then report (t @ '' has no link!'') vs
          else
            (let fs = get_or_empty (entity_fields values)
             in if length fs = 0 then
                  (let sts = get_or_empty (subtypes values)
                   in if sts = [] \<and> t \<notin> set APPROVED_NO_SUBTYPES
                      then report
                        (''TYPE '' @ t @ '' has no fields or subtypes, and is not approved'') vs
                      else type_fields_loop t fs (subtypes_loop t sts vs))
                else type_fields_loop t fs vs)))"

text \<open>The keys do not change during the loop; the entity of a key is read when its
  turn comes.\<close>

definition verify_type_parameters :: "registry \<Rightarrow> vstate" where
  "verify_type_parameters items0 =
     foldl (\<lambda>vs t. verify_type t vs)
       \<lparr>issue_found = False, printed = [], reg = items0\<rparr> (map fst (types items0))"

subsection \<open>Methods pass\<close>

text \<open>\<open>for t in types\<close> of a parameter, the test inside the loop.\<close>

fun param_types_loop :: "string list \<Rightarrow> vstate \<Rightarrow> vstate" where
  "param_types_loop [] vs = vs"
| "param_types_loop (t # ts) vs =
     (let t1 = strip_arrays t
      in param_types_loop ts
           (if map_of (types (reg vs)) t1 = None \<and> t1 \<notin> set TG_CORE_TYPES
            then report (''UNKNOWN PARAM TYPE '' @ t1) vs
            else vs))"

fun method_fields_loop :: "field list \<Rightarrow> vstate \<Rightarrow> vstate" where
  "method_fields_loop [] vs = vs"
| "method_fields_loop (param # params) vs =
     method_fields_loop params (param_types_loop (field_types param) vs)"

fun returns_loop :: "string list \<Rightarrow> vstate \<Rightarrow> vstate" where
  "returns_loop [] vs = vs"
| "returns_loop (ret # rets) vs =
     (let r1 = strip_arrays ret
      in returns_loop rets
           (if map_of (types (reg vs)) r1 = None \<and> r1 \<notin> set TG_CORE_TYPES
            then report (''UNKNOWN RETURN TYPE '' @ r1) vs
            else vs))"

text \<open>\<open>repr\<close> of a string and \<open>str\<close> of a list of strings, for the line about several
  return types.\<close>

definition is_printable :: "char \<Rightarrow> bool" where
  "is_printable c =
     (let n = (of_char c :: nat) in (32 \<le> n \<and> n \<le> 126) \<or> (161 \<le> n \<and> n \<le> 255 \<and> n \<noteq> 173))"

definition hex_digit :: "nat \<Rightarrow> char" where
  "hex_digit d = (if d < 10 then char_of (48 + d) else char_of (87 + d))"

definition repr_char :: "char \<Rightarrow> char \<Rightarrow> string" where
  "repr_char q c =
     (if c = CHR 0x5C then [CHR 0x5C, CHR 0x5C]
      else if c = q then [CHR 0x5C, q]
      else if c = CHR 0x09 then [CHR 0x5C, CHR ''t'']
      else if c = CHR 0x0A then [CHR 0x5C, CHR ''n'']
      else if c = CHR 0x0D then [CHR 0x5C, CHR ''r'']
      else if \<not> is_printable c
      then [CHR 0x5C, CHR ''x'', hex_digit ((of_char c :: nat) div 16),
            hex_digit ((of_char c :: nat) mod 16)]
      else [c])"

definition repr_str :: "string \<Rightarrow> string" where
  "repr_str s =
     (let q = (if CHR 0x27 \<in> set s \<and> CHR 0x22 \<notin> set s then CHR 0x22 else CHR 0x27)
      in [q] @ concat (map (repr_char q) s) @ [q])"

definition str_list :: "string list \<Rightarrow> string" where
  "str_list xs = ''['' @ join '', '' (map repr_str xs) @ '']''"

text \<open>The body of the loop of \<open>verify_method_parameters\<close> for the key \<open>m\<close>.\<close>

definition verify_method :: "string \<Rightarrow> vstate \<Rightarrow> vstate" where
  "verify_method m vs =
     (case map_of (methods (reg vs)) m of
        None \<Rightarrow> vs
      | Some values \<Rightarrow>
         (if \<not> truthy (href values) then report (m @ '' has no link!'') vs
          else if \<not> truthy (returns values) then report (m @ '' has no return types!'') vs
          else
            (let rets = get_or_empty (returns values);
                 vs1 = (if length rets > 1
                        then vs\<lparr>printed := printed vs @
                               [m @ '' has multiple return types: '' @ str_list rets]\<rparr>
                        else vs)
             in returns_loop rets
                  (method_fields_loop (get_or_empty (entity_fields values)) vs1))))"

definition verify_method_parameters :: "registry \<Rightarrow> vstate" where
  "verify_method_parameters items0 =
     foldl (\<lambda>vs m. verify_method m vs)
       \<lparr>issue_found = False, printed = [], reg = items0\<rparr> (map fst (methods items0))"

section \<open>The run\<close>

text \<open>
  What a run leaves: its exit status, the lines on standard output, and the registry
  written to \<open>api.json\<close>, if the file is written. An exception that nothing catches
  ends the process with status 1, \<open>exit(n)\<close> with status \<open>n\<close>.
\<close>

record outcome =
  exit_status :: nat
  stdout :: "string list"
  artifact :: "registry option"

definition exit_status_of :: "error \<Rightarrow> nat" where
  "exit_status_of err = (case err of SystemExit n \<Rightarrow> n | _ \<Rightarrow> 1)"

definition failed_line :: string where
  "failed_line = ''Failed to validate schema. View logs above for more information.''"

text \<open>
  The main block after \<open>retrieve_api_info\<close>. The \<open>or\<close> of Python calls its second
  operand only when the first is false.
\<close>

definition validate_and_write :: "registry \<Rightarrow> outcome" where
  "validate_and_write items0 =
     (let v1 = verify_type_parameters items0
      in if issue_found v1
         then \<lparr>exit_status = 1, stdout = printed v1 @ [failed_line], artifact = None\<rparr>
         else
           (let v2 = verify_method_parameters (reg v1)
            in if issue_found v2
               then \<lparr>exit_status = 1, stdout = printed v1 @ printed v2 @ [failed_line],
                      artifact = None\<rparr>
               else \<lparr>exit_status = 0, stdout = printed v1 @ printed v2,
                      artifact = Some (reg v2)\<rparr>))"

definition main :: "node list \<Rightarrow> outcome" where
  "main nodes =
     (case retrieve_api_info nodes of
        Inl (err, out) \<Rightarrow> \<lparr>exit_status = exit_status_of err, stdout = out, artifact = None\<rparr>
      | Inr items0 \<Rightarrow> validate_and_write items0)"

section \<open>Notions used by the properties\<close>

text \<open>The column count the Field Extractor accepts for a category: three cells in a
  row of a type, four in a row of a method.\<close>

definition expected_columns :: "string \<Rightarrow> cell list \<Rightarrow> bool" where
  "expected_columns ct children =
     ((ct = TYPES \<and> length children = 3) \<or> (ct = METHODS \<and> length children = 4))"

text \<open>The nodes after the last entity header of a document read so far, and whether a
  paragraph is among them.\<close>

fun is_H4 :: "node \<Rightarrow> bool" where
  "is_H4 (H4 a t) = True"
| "is_H4 x = False"

fun is_P :: "node \<Rightarrow> bool" where
  "is_P (P t) = True"
| "is_P x = False"

definition since_header :: "node list \<Rightarrow> node list" where
  "since_header nodes = rev (takeWhile (\<lambda>x. \<not> is_H4 x) (rev nodes))"

definition paragraph_since_header :: "node list \<Rightarrow> bool" where
  "paragraph_since_header nodes = list_ex is_P (since_header nodes)"

text \<open>Example markup: a cell of plain text, and the anchor of the header of an entity.\<close>

definition td :: "string \<Rightarrow> cell" where
  "td s = \<lparr>cell_text = s, cell_description = s, cell_markup = ''<td>'' @ s @ ''</td>''\<rparr>"

definition link :: "string \<Rightarrow> anchor" where
  "link s = \<lparr>anchor_name = Some s, anchor_href = Some (''#'' @ s)\<rparr>"

text \<open>Example tables and documents.\<close>

definition message_rows :: "cell list list" where
  "message_rows =
     [[td ''message_id'', td ''Integer'', td ''Unique message identifier''],
      [td ''text'', td ''String'', td ''Optional. The text of the message'']]"

definition send_rows :: "cell list list" where
  "send_rows =
     [[td ''chat_id'', td ''Integer or String'', td ''Yes'', td ''Target chat''],
      [td ''text'', td ''String'', td ''Optional'', td ''New text'']]"

definition message_header :: "node list" where
  "message_header =
     [H3, H4 (Some (link ''message'')) ''Message'', P ''This object represents a message.'']"

definition short_rows :: "cell list list" where
  "short_rows = [[td ''message_id'', td ''Integer'']]"

definition chat_member_header :: "node list" where
  "chat_member_header = [H4 (Some (link ''chatmember'')) ''ChatMember'']"

text \<open>
  The state a pass of the validator starts from. Two registries with the same keys of
  types. A type entity that differs from another in \<open>subtype_of\<close> only, where it has
  at least the same names; a registry that differs from another in that way only.
\<close>

definition fresh :: "registry \<Rightarrow> vstate" where
  "fresh r = \<lparr>issue_found = False, printed = [], reg = r\<rparr>"

definition same_keys :: "registry \<Rightarrow> registry \<Rightarrow> bool" where
  "same_keys r r1 = (\<forall>k. (map_of (types r) k = None) = (map_of (types r1) k = None))"

definition grown :: "entity \<Rightarrow> entity \<Rightarrow> bool" where
  "grown e e1 = (e1 = e\<lparr>subtype_of := subtype_of e1\<rparr>
     \<and> set (get_or_empty (subtype_of e)) \<subseteq> set (get_or_empty (subtype_of e1)))"

definition evolves :: "registry \<Rightarrow> registry \<Rightarrow> bool" where
  "evolves r r1 = (methods r1 = methods r \<and> map fst (types r1) = map fst (types r)
     \<and> (\<forall>k. rel_option grown (map_of (types r) k) (map_of (types r1) k)))"

definition parent_registry :: registry where
  "parent_registry =
     \<lparr>methods = [],
      types =
        [(''ChatMember'',
          (new_entity ''ChatMember'')
            \<lparr>href := Some (API_URL @ ''#chatmember''),
             subtypes := Some [''ChatMemberOwner'']\<rparr>),
         (''ChatMemberOwner'',
          (new_entity ''ChatMemberOwner'')
            \<lparr>href := Some (API_URL @ ''#chatmemberowner''),
             entity_fields := Some [\<lparr>field_name = ''status'', field_types = [''String''],
               field_required = True, field_description = ''The status''\<rparr>]\<rparr>)]\<rparr>"

definition fields_doc :: "node list" where
  "fields_doc =
     [H4 (Some (link ''chatmember'')) ''ChatMember'',
      P ''This object contains information about one member of a chat.'',
      Table (Some [[td ''status'', td ''String'', td ''The status'']]),
      Ul [''ChatMemberOwner''],
      H4 (Some (link ''chatmemberowner'')) ''ChatMemberOwner'',
      P ''Represents a chat member that owns the chat.'',
      Table (Some [[td ''status'', td ''String'', td ''The status'']])]"

definition fields_registry :: registry where
  "fields_registry =
     \<lparr>methods = [],
      types =
        [(''ChatMember'',
          \<lparr>name = ''ChatMember'', href = Some (API_URL @ ''#chatmember''),
           description = Some [''This object contains information about one member of a chat.'',
             ''- ChatMemberOwner''],
           entity_fields = Some [\<lparr>field_name = ''status'', field_types = [''String''],
               field_required = True, field_description = ''The status''\<rparr>],
           subtypes = Some [''ChatMemberOwner''], subtype_of = None, returns = None\<rparr>),
         (''ChatMemberOwner'',
          \<lparr>name = ''ChatMemberOwner'', href = Some (API_URL @ ''#chatmemberowner''),
           description = Some [''Represents a chat member that owns the chat.''],
           entity_fields = Some [\<lparr>field_name = ''status'', field_types = [''String''],
               field_required = True, field_description = ''The status''\<rparr>],
           subtypes = None, subtype_of = None, returns = None\<rparr>)]\<rparr>"

definition union_doc :: "node list" where
  "union_doc =
     [H4 (Some (link ''chat'')) ''Chat'',
      P ''This object represents a chat.'',
      Table (Some [[td ''photo'', td ''ChatPhoto or String'', td ''Optional. Chat photo'']])]"

definition union_registry :: registry where
  "union_registry =
     \<lparr>methods = [],
      types =
        [(''Chat'',
          \<lparr>name = ''Chat'', href = Some (API_URL @ ''#chat''),
           description = Some [''This object represents a chat.''],
           entity_fields = Some [\<lparr>field_name = ''photo'',
               field_types = [''ChatPhoto'', ''String''],
               field_required = False, field_description = ''Optional. Chat photo''\<rparr>],
           subtypes = None, subtype_of = None, returns = None\<rparr>)]\<rparr>"

definition union_method_doc :: "node list" where
  "union_method_doc =
     [H4 (Some (link ''setchatphoto'')) ''setChatPhoto'',
      P ''Returns True on success.'',
      Table (Some [[td ''photo'', td ''ChatPhoto or String'', td ''Yes'', td ''New chat photo'']])]"



section \<open>Properties of the Type-String Parser\<close>

lemma map_strip_id: "list_all (\<lambda>a. strip a = a) xs \<Longrightarrow> map strip xs = xs"
  by (induction xs) auto

lemma concat_map_strip_id:
  "list_all (\<lambda>a. list_all (\<lambda>b. strip b = b) (f a)) xs \<Longrightarrow>
     concat (map (\<lambda>a. map strip (f a)) xs) = concat (map f xs)"
  by (induction xs) (auto simp: map_strip_id)

lemma clean_tg_type_trimming_eq: "clean_tg_type t = clean_tg_type_trimming t"
  by (simp add: clean_tg_type_def clean_tg_type_trimming_def split_trim_def map_concat
      split: prod.splits) (simp add: comp_def)

lemma clean_tg_type_spec_eq:
  assumes h: "trimmed_fragments t"
  shows "clean_tg_type t = clean_tg_type_spec t"
proof -
  obtain pref b where pb: "array_prefix t = (pref, b)" by (cases "array_prefix t")
  let ?ors = "split_str '' or '' b"
  let ?ands = "concat (map (split_str '' and '') ?ors)"
  from h pb have o: "list_all (\<lambda>a. strip a = a) ?ors"
    by (auto simp: trimmed_fragments_def list_all_iff)
  from h pb have a: "list_all (\<lambda>a. list_all (\<lambda>b. strip b = b) (split_str '' and '' a)) ?ors"
    by (auto simp: trimmed_fragments_def list_all_iff)
  from h pb have c: "list_all (\<lambda>a. list_all (\<lambda>b. strip b = b) (split_str '', '' a)) ?ands"
    by (auto simp: trimmed_fragments_def list_all_iff)
  show ?thesis
    unfolding clean_tg_type_def clean_tg_type_spec_def pb Let_def prod.case
      map_strip_id[OF o] concat_map_strip_id[OF a] concat_map_strip_id[OF c] ..
qed

lemma clean_tg_type_examples:
  "clean_tg_type ''Array of A or B'' = [''Array of A'', ''Array of B'']"
  "clean_tg_type ''Int'' = [''Integer'']"
  "clean_tg_type ''True'' = [''Boolean'']"
  "clean_tg_type ''Float number'' = [''Float'']"
  by code_simp+

text \<open>
  C5, as stated, fails: the parser of the specification keeps the white space around a
  fragment, \<open>clean_tg_type\<close> trims it (the calls of \<open>strip\<close> after each split), so that
  \<open>"Int "\<close> becomes \<open>Integer\<close> in the code and stays \<open>"Int "\<close> in the specification's
  parser.
\<close>

theorem clean_tg_type_untrimmed_counterexample:
  "clean_tg_type ''Int '' = [''Integer''] \<and> clean_tg_type_spec ''Int '' = [''Int '']
     \<and> clean_tg_type ''Int '' \<noteq> clean_tg_type_spec ''Int ''"
  by code_simp

text \<open>
  C5, amended: the four examples are parsed as the specification says; in general the
  parser removes one optional leading \<open>"Array of "\<close>, splits on \<open>" or "\<close>, then
  \<open>" and "\<close>, then \<open>", "\<close>, trimming the white space around every fragment after each
  split, applies the alias table to each fragment and puts the array prefix back on
  every result, in order and with duplicates; where no fragment has white space around
  it, that is the parser of the specification.
\<close>

theorem clean_tg_type_parses:
  "clean_tg_type ''Array of A or B'' = [''Array of A'', ''Array of B'']
   \<and> clean_tg_type ''Int'' = [''Integer'']
   \<and> clean_tg_type ''True'' = [''Boolean'']
   \<and> clean_tg_type ''Float number'' = [''Float'']
   \<and> clean_tg_type t = clean_tg_type_trimming t
   \<and> (trimmed_fragments t \<longrightarrow> clean_tg_type t = clean_tg_type_spec t)"
  using clean_tg_type_examples clean_tg_type_trimming_eq [of t] clean_tg_type_spec_eq [of t]
  by blast

theorem clean_tg_type_parses_witness:
  "trimmed_fragments ''Array of InputMedia or String''
   \<and> clean_tg_type ''Array of InputMedia or String'' =
       clean_tg_type_spec ''Array of InputMedia or String''
   \<and> clean_tg_type_spec ''Array of InputMedia or String'' =
       [''Array of InputMedia'', ''Array of String'']"
proof -
  have h: "trimmed_fragments ''Array of InputMedia or String''"
    by code_simp
  have v: "clean_tg_type_spec ''Array of InputMedia or String'' =
       [''Array of InputMedia'', ''Array of String'']"
    by code_simp
  from clean_tg_type_parses [of "''Array of InputMedia or String''"] h v
  show ?thesis by blast
qed

section \<open>Properties of the registry\<close>

lemma METHODS_neq_TYPES: "METHODS \<noteq> TYPES"
  by (simp add: METHODS_def TYPES_def)

lemma get_entity_category:
  "get_entity its ct cn = Some e \<Longrightarrow> ct = METHODS \<or> ct = TYPES"
  by (auto simp: get_entity_def get_category_def split: if_splits)

lemma get_put_entity:
  "ct = METHODS \<or> ct = TYPES \<Longrightarrow> get_entity (put_entity its ct cn e) ct cn = Some e"
  using METHODS_neq_TYPES
  by (auto simp: get_entity_def put_entity_def get_category_def update_conv')

section \<open>Properties of the Return-Type Inferrer\<close>

lemma message_clause:
  "search_returns (join [CHR 0x0A] [''On success, the sent Message is returned.'']) =
     Some '' the sent Message is returned''"
  "strip '' the sent Message is returned'' = ''the sent Message is returned''"
  "search_array_of ''the sent Message is returned'' = None"
  "concat (map (\<lambda>ret. filter (\<lambda>r. first_isupper ret) (clean_tg_type (remove_punctuation ret)))
     (split_ws ''the sent Message is returned'')) = [''Message'']"
  by code_simp+

lemma chat_member_clause:
  "search_returns (join [CHR 0x0A] [''Returns an Array of ChatMember objects.'']) =
     Some '' an Array of ChatMember objects''"
  "strip '' an Array of ChatMember objects'' = ''an Array of ChatMember objects''"
  "search_array_of ''an Array of ChatMember objects'' = Some ''ChatMember''"
  "map (\<lambda>r. ''Array of '' @ r) (clean_tg_type ''ChatMember'') = [''Array of ChatMember'']"
  by code_simp+

lemma infer_message:
  assumes "get_entity its METHODS cn = Some e"
  shows "get_method_return_type cn METHODS
           [''On success, the sent Message is returned.''] its =
         Inr (put_entity its METHODS cn (e\<lparr>returns := Some [''Message'']\<rparr>))"
  using assms
  by (simp only: get_method_return_type_def extract_return_type_def set_returns_def Let_def
      message_clause option.case)

lemma infer_chat_member:
  assumes "get_entity its METHODS cn = Some e"
  shows "get_method_return_type cn METHODS
           [''Returns an Array of ChatMember objects.''] its =
         Inr (put_entity its METHODS cn (e\<lparr>returns := Some [''Array of ChatMember'']\<rparr>))"
  using assms
  by (simp only: get_method_return_type_def extract_return_type_def set_returns_def Let_def
      chat_member_clause option.case)

text \<open>
  C4: for a method entity \<open>e\<close> of the registry, the inferrer on the description
  \<open>"On success, the sent Message is returned."\<close> returns the registry in which the
  entity's \<open>returns\<close> is \<open>["Message"]\<close>, and on
  \<open>"Returns an Array of ChatMember objects."\<close> the registry in which it is
  \<open>["Array of ChatMember"]\<close>; nothing else of the entity changes.
\<close>

theorem get_method_return_type_infers:
  assumes "get_entity its METHODS cn = Some e"
  shows "(\<exists>its1. get_method_return_type cn METHODS
             [''On success, the sent Message is returned.''] its = Inr its1
           \<and> get_entity its1 METHODS cn = Some (e\<lparr>returns := Some [''Message'']\<rparr>))
       \<and> (\<exists>its1. get_method_return_type cn METHODS
             [''Returns an Array of ChatMember objects.''] its = Inr its1
           \<and> get_entity its1 METHODS cn =
               Some (e\<lparr>returns := Some [''Array of ChatMember'']\<rparr>))"
  using infer_message [OF assms] infer_chat_member [OF assms] get_put_entity [of METHODS]
  by simp

theorem get_method_return_type_infers_witness:
  "get_entity \<lparr>methods = [(''getChatAdministrators'', new_entity ''getChatAdministrators'')],
                types = []\<rparr> METHODS ''getChatAdministrators''
     = Some (new_entity ''getChatAdministrators'')
   \<and> ((\<exists>its1. get_method_return_type ''getChatAdministrators'' METHODS
             [''On success, the sent Message is returned.'']
             \<lparr>methods = [(''getChatAdministrators'', new_entity ''getChatAdministrators'')],
               types = []\<rparr> = Inr its1
           \<and> get_entity its1 METHODS ''getChatAdministrators'' =
               Some ((new_entity ''getChatAdministrators'')\<lparr>returns := Some [''Message'']\<rparr>))
       \<and> (\<exists>its1. get_method_return_type ''getChatAdministrators'' METHODS
             [''Returns an Array of ChatMember objects.'']
             \<lparr>methods = [(''getChatAdministrators'', new_entity ''getChatAdministrators'')],
               types = []\<rparr> = Inr its1
           \<and> get_entity its1 METHODS ''getChatAdministrators'' =
               Some ((new_entity ''getChatAdministrators'')
                       \<lparr>returns := Some [''Array of ChatMember'']\<rparr>)))"
proof -
  have h: "get_entity \<lparr>methods = [(''getChatAdministrators'',
                new_entity ''getChatAdministrators'')], types = []\<rparr>
              METHODS ''getChatAdministrators'' = Some (new_entity ''getChatAdministrators'')"
    by (simp add: get_entity_def get_category_def)
  show ?thesis
    by (rule conjI [OF h get_method_return_type_infers [OF h]])
qed

section \<open>Properties of the Field Extractor\<close>

lemma get_fields_rows_ok:
  "get_fields_rows cn ct trs fs0 = Inr fs \<Longrightarrow>
     \<exists>fs1. fs = fs0 @ fs1
       \<and> list_all (expected_columns ct) trs
       \<and> map field_description fs1 =
           map (\<lambda>ch. cell_description (ch ! (if ct = TYPES then 2 else 3))) trs
       \<and> map field_required fs1 =
           map (\<lambda>ch. if ct = TYPES then \<not> startswith (cell_description (ch ! 2)) ''Optional. ''
                      else cell_text (ch ! 2) = ''Yes'') trs"
proof (induction trs arbitrary: fs0)
  case Nil
  then show ?case by simp
next
  case (Cons ch trs)
  show ?case
  proof (cases "ct = TYPES \<and> length ch = 3")
    case True
    with Cons.prems Cons.IH [of "fs0 @ [\<lparr>field_name = cell_text (ch ! 0),
        field_types = clean_tg_type (cell_text (ch ! 1)),
        field_required = (\<not> startswith (cell_description (ch ! 2)) ''Optional. ''),
        field_description = cell_description (ch ! 2)\<rparr>]"]
    show ?thesis by (auto simp: expected_columns_def Let_def)
  next
    case False
    note nt = this
    show ?thesis
    proof (cases "ct = METHODS \<and> length ch = 4")
      case True
      with nt Cons.prems Cons.IH [of "fs0 @ [\<lparr>field_name = cell_text (ch ! 0),
        field_types = clean_tg_type (cell_text (ch ! 1)),
        field_required = (cell_text (ch ! 2) = ''Yes''),
        field_description = cell_description (ch ! 3)\<rparr>]"] METHODS_neq_TYPES
      show ?thesis by (auto simp: expected_columns_def Let_def)
    next
      case False
      from Cons.prems have False
        unfolding get_fields_rows.simps if_not_P [OF nt] if_not_P [OF False] by simp
      then show ?thesis ..
    qed
  qed
qed

lemma get_fields_rows_unexpected:
  "list_all (expected_columns ct) good \<Longrightarrow> \<not> expected_columns ct bad \<Longrightarrow>
     get_fields_rows cn ct (good @ bad # rest) fs0 =
       Inl (SystemExit 1, unexpected_state ct cn bad)"
  by (induction good arbitrary: fs0) (auto simp: expected_columns_def Let_def)

text \<open>
  C8: when the Field Extractor returns, the entity has one field record for each row of
  the table, in order. For a type every row has three cells, the description of the
  record is the normalized text of the third cell, and \<open>required\<close> is true exactly
  when that description does not start with \<open>"Optional. "\<close>; for a method every row
  has four cells and \<open>required\<close> is true exactly when the text of the third cell is
  \<open>"Yes"\<close>.
\<close>

theorem get_fields_required:
  assumes "get_fields cn ct (Some trs) its = Inr its1"
  shows "\<exists>e fs. get_entity its1 ct cn = Some e \<and> entity_fields e = Some fs
           \<and> length fs = length trs
           \<and> (\<forall>i<length trs.
                (ct = TYPES \<longrightarrow> length (trs ! i) = 3
                   \<and> field_description (fs ! i) = cell_description (trs ! i ! 2)
                   \<and> field_required (fs ! i) =
                       (\<not> startswith (field_description (fs ! i)) ''Optional. ''))
              \<and> (ct = METHODS \<longrightarrow> length (trs ! i) = 4
                   \<and> field_required (fs ! i) = (cell_text (trs ! i ! 2) = ''Yes'')))"
proof -
  from assms obtain fs e where
    rows: "get_fields_rows cn ct trs [] = Inr fs"
    and e: "get_entity its ct cn = Some e"
    and its1: "its1 = put_entity its ct cn (e\<lparr>entity_fields := Some fs\<rparr>)"
    by (auto simp: get_fields_def split: sum.splits option.splits)
  from get_fields_rows_ok [OF rows] have
    ok: "list_all (expected_columns ct) trs"
    and d: "map field_description fs =
           map (\<lambda>ch. cell_description (ch ! (if ct = TYPES then 2 else 3))) trs"
    and r: "map field_required fs =
           map (\<lambda>ch. if ct = TYPES then \<not> startswith (cell_description (ch ! 2)) ''Optional. ''
                      else cell_text (ch ! 2) = ''Yes'') trs"
    by auto
  from d have len: "length fs = length trs"
    by (metis length_map)
  have "\<forall>i<length trs.
                (ct = TYPES \<longrightarrow> length (trs ! i) = 3
                   \<and> field_description (fs ! i) = cell_description (trs ! i ! 2)
                   \<and> field_required (fs ! i) =
                       (\<not> startswith (field_description (fs ! i)) ''Optional. ''))
              \<and> (ct = METHODS \<longrightarrow> length (trs ! i) = 4
                   \<and> field_required (fs ! i) = (cell_text (trs ! i ! 2) = ''Yes''))"
  proof (intro allI impI)
    fix i assume i: "i < length trs"
    from i len have "field_description (fs ! i) = map field_description fs ! i"
      and "field_required (fs ! i) = map field_required fs ! i" by simp_all
    with d r i have
      di: "field_description (fs ! i) = cell_description (trs ! i ! (if ct = TYPES then 2 else 3))"
      and ri: "field_required (fs ! i) =
          (if ct = TYPES then \<not> startswith (cell_description (trs ! i ! 2)) ''Optional. ''
           else cell_text (trs ! i ! 2) = ''Yes'')"
      by simp_all
    from ok i have "expected_columns ct (trs ! i)"
      by (simp add: list_all_length)
    with di ri METHODS_neq_TYPES
    show "(ct = TYPES \<longrightarrow> length (trs ! i) = 3
                   \<and> field_description (fs ! i) = cell_description (trs ! i ! 2)
                   \<and> field_required (fs ! i) =
                       (\<not> startswith (field_description (fs ! i)) ''Optional. ''))
              \<and> (ct = METHODS \<longrightarrow> length (trs ! i) = 4
                   \<and> field_required (fs ! i) = (cell_text (trs ! i ! 2) = ''Yes''))"
      by (auto simp: expected_columns_def)
  qed
  moreover from e its1 have "get_entity its1 ct cn = Some (e\<lparr>entity_fields := Some fs\<rparr>)"
    using get_put_entity [OF get_entity_category [OF e]] by simp
  ultimately show ?thesis using len by auto
qed

theorem get_fields_required_witness:
  "(\<exists>its1. get_fields ''Message'' TYPES (Some message_rows)
       \<lparr>methods = [], types = [(''Message'', new_entity ''Message'')]\<rparr> = Inr its1
     \<and> (\<exists>e fs. get_entity its1 TYPES ''Message'' = Some e \<and> entity_fields e = Some fs
           \<and> length fs = length message_rows
           \<and> (\<forall>i<length message_rows.
                (TYPES = TYPES \<longrightarrow> length (message_rows ! i) = 3
                   \<and> field_description (fs ! i) = cell_description (message_rows ! i ! 2)
                   \<and> field_required (fs ! i) =
                       (\<not> startswith (field_description (fs ! i)) ''Optional. ''))
              \<and> (TYPES = METHODS \<longrightarrow> length (message_rows ! i) = 4
                   \<and> field_required (fs ! i) = (cell_text (message_rows ! i ! 2) = ''Yes'')))))
   \<and> (\<exists>its1. get_fields ''sendMessage'' METHODS (Some send_rows)
       \<lparr>methods = [(''sendMessage'', new_entity ''sendMessage'')], types = []\<rparr> = Inr its1
     \<and> (\<exists>e fs. get_entity its1 METHODS ''sendMessage'' = Some e \<and> entity_fields e = Some fs
           \<and> length fs = length send_rows
           \<and> (\<forall>i<length send_rows.
                (METHODS = TYPES \<longrightarrow> length (send_rows ! i) = 3
                   \<and> field_description (fs ! i) = cell_description (send_rows ! i ! 2)
                   \<and> field_required (fs ! i) =
                       (\<not> startswith (field_description (fs ! i)) ''Optional. ''))
              \<and> (METHODS = METHODS \<longrightarrow> length (send_rows ! i) = 4
                   \<and> field_required (fs ! i) = (cell_text (send_rows ! i ! 2) = ''Yes'')))))"
proof -
  have t: "get_fields ''Message'' TYPES (Some message_rows)
       \<lparr>methods = [], types = [(''Message'', new_entity ''Message'')]\<rparr>
     = Inr \<lparr>methods = [], types = [(''Message'', (new_entity ''Message'')\<lparr>entity_fields := Some
          [\<lparr>field_name = ''message_id'', field_types = [''Integer''], field_required = True,
            field_description = ''Unique message identifier''\<rparr>,
           \<lparr>field_name = ''text'', field_types = [''String''], field_required = False,
            field_description = ''Optional. The text of the message''\<rparr>]\<rparr>)]\<rparr>"
    by code_simp
  have m: "get_fields ''sendMessage'' METHODS (Some send_rows)
       \<lparr>methods = [(''sendMessage'', new_entity ''sendMessage'')], types = []\<rparr>
     = Inr \<lparr>methods = [(''sendMessage'', (new_entity ''sendMessage'')\<lparr>entity_fields := Some
          [\<lparr>field_name = ''chat_id'', field_types = [''Integer'', ''String''],
            field_required = True, field_description = ''Target chat''\<rparr>,
           \<lparr>field_name = ''text'', field_types = [''String''], field_required = False,
            field_description = ''New text''\<rparr>]\<rparr>)], types = []\<rparr>"
    by code_simp
  show ?thesis
    by (rule conjI; rule exI)
      (rule conjI [OF t get_fields_required [OF t]], rule conjI [OF m get_fields_required [OF m]])
qed

section \<open>Properties of the run on a table\<close>

lemma run_nodes_append:
  "run_nodes st (xs @ ys) =
     (case run_nodes st xs of Inl err \<Rightarrow> Inl err | Inr st1 \<Rightarrow> run_nodes st1 ys)"
  by (induction xs arbitrary: st) (auto split: sum.splits)

lemma step_Table:
  "step st (Table tb) = route st (Table tb)"
  by (simp add: step_def)

lemma route_Table_unexpected:
  assumes "curr_type st \<noteq> []" "curr_name st \<noteq> []"
    and "list_all (expected_columns (curr_type st)) good"
    and "\<not> expected_columns (curr_type st) bad"
  shows "route st (Table (Some (good @ bad # rest))) =
           Inl (SystemExit 1, unexpected_state (curr_type st) (curr_name st) bad)"
  using assms
  by (simp add: route_def deliver_def get_fields_def get_fields_rows_unexpected)

text \<open>
  C3: when a table goes to the open entity and one of its rows has not the column count
  expected for the category of the entity, the run ends with exit status 1 at the first
  such row: it has printed the diagnostic with the category, the name of the entity, the
  number of cells of the row and the cells, and no file is written, whatever nodes
  follow the table.
\<close>

theorem unexpected_columns_abort:
  assumes "run_nodes initial_context pre = Inr st"
    and "curr_type st \<noteq> []" and "curr_name st \<noteq> []"
    and "\<exists>ch \<in> set trs. \<not> expected_columns (curr_type st) ch"
  shows "\<exists>bad \<in> set trs. \<not> expected_columns (curr_type st) bad
           \<and> main (pre @ Table (Some trs) # post) =
               \<lparr>exit_status = 1,
                 stdout = [''An unexpected state has occurred!'',
                           ''Type: '' @ curr_type st,
                           ''Name: '' @ curr_name st,
                           ''Number of children: '' @ string_of_nat (length bad),
                           ''['' @ join '', '' (map cell_markup bad) @ '']''],
                 artifact = None\<rparr>"
proof -
  from assms(4) obtain good bad rest where
    trs: "trs = good @ bad # rest"
    and bad: "\<not> expected_columns (curr_type st) bad"
    and good: "\<forall>ch \<in> set good. \<not> \<not> expected_columns (curr_type st) ch"
    using split_list_first_prop [of trs "\<lambda>ch. \<not> expected_columns (curr_type st) ch"]
    by blast
  from good have "list_all (expected_columns (curr_type st)) good"
    by (simp add: list_all_iff)
  from route_Table_unexpected [OF assms(2) assms(3) this bad]
  have "run_nodes initial_context (pre @ Table (Some trs) # post) =
      Inl (SystemExit 1, unexpected_state (curr_type st) (curr_name st) bad)"
    by (simp add: run_nodes_append assms(1) step_Table trs)
  then have "main (pre @ Table (Some trs) # post) =
      \<lparr>exit_status = 1, stdout = unexpected_state (curr_type st) (curr_name st) bad,
        artifact = None\<rparr>"
    by (simp add: main_def retrieve_api_info_def exit_status_of_def)
  with bad trs show ?thesis
    by (auto simp: unexpected_state_def)
qed

theorem unexpected_columns_abort_witness:
  "\<exists>st. run_nodes initial_context message_header = Inr st
      \<and> curr_type st \<noteq> [] \<and> curr_name st \<noteq> []
      \<and> (\<exists>ch \<in> set short_rows. \<not> expected_columns (curr_type st) ch)
      \<and> (\<exists>bad \<in> set short_rows. \<not> expected_columns (curr_type st) bad
           \<and> main (message_header @ Table (Some short_rows) # [P ''Never read.'']) =
               \<lparr>exit_status = 1,
                 stdout = [''An unexpected state has occurred!'',
                           ''Type: '' @ curr_type st,
                           ''Name: '' @ curr_name st,
                           ''Number of children: '' @ string_of_nat (length bad),
                           ''['' @ join '', '' (map cell_markup bad) @ '']''],
                 artifact = None\<rparr>)"
proof -
  let ?st = "\<lparr>curr_type = ''types'', curr_name = ''Message'',
     items = \<lparr>methods = [], types = [(''Message'',
        \<lparr>name = ''Message'', href = Some ''https://core.telegram.org/bots/api#message'',
         description = Some [''This object represents a message.''],
         entity_fields = None, subtypes = None, subtype_of = None, returns = None\<rparr>)]\<rparr>\<rparr>"
  have h1: "run_nodes initial_context message_header = Inr ?st"
    by code_simp
  have h2: "curr_type ?st \<noteq> []" and h3: "curr_name ?st \<noteq> []"
    by simp_all
  have h4: "\<exists>ch \<in> set short_rows. \<not> expected_columns (curr_type ?st) ch"
    by (simp add: short_rows_def expected_columns_def)
  show ?thesis
    by (rule exI [of _ ?st], intro conjI, rule h1, rule h2, rule h3, rule h4,
        rule unexpected_columns_abort [OF h1 h2 h3 h4])
qed

section \<open>Properties of the Subtype and Enumeration Extractor\<close>

text \<open>
  C7 fails on the code for the entity \<open>InputFile\<close>: \<open>get_subtypes\<close> returns at once
  for that name, before the statement that appends the items to the description, so
  the registry is unchanged; the list of \<open>InputFile\<close> after its paragraph leaves the
  description with the paragraph alone, where the list of \<open>InputMedia\<close> is appended
  with its bullet markers.
\<close>

theorem get_subtypes_skips_InputFile:
  "get_subtypes ''InputFile'' ct x its = Inr its
   \<and> retrieve_api_info
      [H4 (Some (link ''inputfile'')) ''InputFile'',
       P ''This object represents the contents of a file to be uploaded.'',
       Ul [''a file_id'', ''an HTTP URL'']] =
     Inr \<lparr>methods = [],
          types = [(''InputFile'',
             \<lparr>name = ''InputFile'', href = Some ''https://core.telegram.org/bots/api#inputfile'',
              description = Some [''This object represents the contents of a file to be uploaded.''],
              entity_fields = None, subtypes = None, subtype_of = None, returns = None\<rparr>)]\<rparr>
   \<and> retrieve_api_info
      [H4 (Some (link ''inputmedia'')) ''InputMedia'',
       P ''This object represents the content of a media message.'',
       Ul [''InputMediaPhoto'', ''InputMediaVideo'']] =
     Inr \<lparr>methods = [],
          types = [(''InputMedia'',
             \<lparr>name = ''InputMedia'', href = Some ''https://core.telegram.org/bots/api#inputmedia'',
              description = Some [''This object represents the content of a media message.'',
                 ''- InputMediaPhoto'', ''- InputMediaVideo''],
              entity_fields = None, subtypes = Some [''InputMediaPhoto'', ''InputMediaVideo''],
              subtype_of = None, returns = None\<rparr>)]\<rparr>"
proof -
  have 1: "get_subtypes ''InputFile'' ct x its = Inr its"
    by (simp add: get_subtypes_def)
  have 2: "retrieve_api_info
      [H4 (Some (link ''inputfile'')) ''InputFile'',
       P ''This object represents the contents of a file to be uploaded.'',
       Ul [''a file_id'', ''an HTTP URL'']] =
     Inr \<lparr>methods = [],
          types = [(''InputFile'',
             \<lparr>name = ''InputFile'', href = Some ''https://core.telegram.org/bots/api#inputfile'',
              description = Some [''This object represents the contents of a file to be uploaded.''],
              entity_fields = None, subtypes = None, subtype_of = None, returns = None\<rparr>)]\<rparr>"
    by code_simp
  have 3: "retrieve_api_info
      [H4 (Some (link ''inputmedia'')) ''InputMedia'',
       P ''This object represents the content of a media message.'',
       Ul [''InputMediaPhoto'', ''InputMediaVideo'']] =
     Inr \<lparr>methods = [],
          types = [(''InputMedia'',
             \<lparr>name = ''InputMedia'', href = Some ''https://core.telegram.org/bots/api#inputmedia'',
              description = Some [''This object represents the content of a media message.'',
                 ''- InputMediaPhoto'', ''- InputMediaVideo''],
              entity_fields = None, subtypes = Some [''InputMediaPhoto'', ''InputMediaVideo''],
              subtype_of = None, returns = None\<rparr>)]\<rparr>"
    by code_simp
  from 1 2 3 show ?thesis by (intro conjI)
qed

section \<open>Properties of the Entity Segmenter\<close>

lemma put_entity_other:
  "get_entity (put_entity its ct cn e) ct cn = Some e' \<Longrightarrow> e' = e"
  using METHODS_neq_TYPES
  by (auto simp: get_entity_def put_entity_def get_category_def update_conv' split: if_splits)

lemma set_returns_description:
  assumes "set_returns ct cn rets its = Inr its1" and "get_entity its ct cn = Some e"
  shows "\<exists>e1. get_entity its1 ct cn = Some e1 \<and> description e1 = description e"
  using assms get_put_entity [OF get_entity_category [OF assms(2)]]
  by (auto simp: set_returns_def)

lemma set_returns_total:
  "get_entity its ct cn = Some e \<Longrightarrow> \<exists>its1. set_returns ct cn rets its = Inr its1"
  by (simp add: set_returns_def)

lemma get_method_return_type_description:
  assumes "get_method_return_type cn ct ds its = Inr its1" and "get_entity its ct cn = Some e"
  shows "\<exists>e1. get_entity its1 ct cn = Some e1 \<and> description e1 = description e"
  using assms set_returns_description [OF _ assms(2)]
  by (auto simp: get_method_return_type_def extract_return_type_def Let_def
      split: option.splits)

lemma get_method_return_type_total:
  assumes "get_entity its ct cn = Some e"
  shows "\<exists>its1. get_method_return_type cn ct ds its = Inr its1"
  using set_returns_total [OF assms]
  by (auto simp: get_method_return_type_def extract_return_type_def Let_def
      split: option.splits)

lemma infer_returns_description:
  assumes "infer_returns st its1 = Inr st1"
    and "get_entity its1 (curr_type st) (curr_name st) = Some e"
  shows "curr_type st1 = curr_type st \<and> curr_name st1 = curr_name st
    \<and> (\<exists>e1. get_entity (items st1) (curr_type st) (curr_name st) = Some e1
          \<and> description e1 = description e)"
  using assms get_method_return_type_description [OF _ assms(2)]
  by (auto simp: infer_returns_def split: if_splits sum.splits)

lemma infer_returns_total:
  assumes "get_entity its1 (curr_type st) (curr_name st) = Some e"
  shows "\<exists>st1. infer_returns st its1 = Inr st1"
proof -
  from get_method_return_type_total [OF assms]
  obtain its2 where "get_method_return_type (curr_name st) (curr_type st)
      (get_or_empty (description e)) its1 = Inr its2"
    by blast
  with assms show ?thesis
    by (cases "curr_type st = METHODS") (auto simp: infer_returns_def)
qed

lemma get_fields_description:
  assumes "get_fields cn ct tb its = Inr its1" and "get_entity its ct cn = Some e"
  shows "\<exists>e1. get_entity its1 ct cn = Some e1 \<and> description e1 = description e"
  using assms get_put_entity [OF get_entity_category [OF assms(2)]]
  by (auto simp: get_fields_def split: option.splits sum.splits)

lemma get_subtypes_description:
  assumes "get_subtypes cn ct lis its = Inr its1" and "get_entity its ct cn = Some e"
  shows "\<exists>e1. get_entity its1 ct cn = Some e1
     \<and> (description e1 \<noteq> None) = (description e \<noteq> None)
     \<and> (cn \<noteq> ''InputFile'' \<longrightarrow> description e \<noteq> None)"
  using assms get_put_entity [OF get_entity_category [OF assms(2)]]
  by (auto simp: get_subtypes_def Let_def split: option.splits if_splits)

lemma get_subtypes_KeyError:
  assumes "cn \<noteq> ''InputFile''"
    and "\<forall>e. get_entity its ct cn = Some e \<longrightarrow> description e = None"
  shows "get_subtypes cn ct lis its = Inl (KeyError, [])"
  using assms
  by (auto simp: get_subtypes_def Let_def split: option.splits)

lemma get_subtypes_total:
  assumes "get_entity its ct cn = Some e" and "description e = Some d"
  shows "\<exists>its1. get_subtypes cn ct lis its = Inr its1"
  using assms
  by (auto simp: get_subtypes_def Let_def split: option.splits)

lemma deliver_description:
  assumes "deliver st x = Inr its1"
    and "get_entity (items st) (curr_type st) (curr_name st) = Some e"
  shows "\<exists>e1. get_entity its1 (curr_type st) (curr_name st) = Some e1
     \<and> (description e1 \<noteq> None) = (description e \<noteq> None \<or> is_P x)"
proof (cases x)
  case (P t)
  with assms get_put_entity [OF get_entity_category [OF assms(2)]] show ?thesis
    by (auto simp: deliver_def)
next
  case (Table tb)
  with assms(1) have "get_fields (curr_name st) (curr_type st) tb (items st) = Inr its1"
    by (simp add: deliver_def)
  from get_fields_description [OF this assms(2)] Table show ?thesis
    by auto
next
  case (Ul lis)
  with assms(1) have "get_subtypes (curr_name st) (curr_type st) lis (items st) = Inr its1"
    by (simp add: deliver_def)
  from get_subtypes_description [OF this assms(2)] Ul show ?thesis
    by auto
qed (use assms in \<open>auto simp: deliver_def\<close>)

lemma paragraph_since_header_snoc:
  "paragraph_since_header (pre @ [x]) =
     (if is_H4 x then False else paragraph_since_header pre \<or> is_P x)"
  by (auto simp: paragraph_since_header_def since_header_def)

lemma route_closed:
  "curr_type st = [] \<or> curr_name st = [] \<Longrightarrow> route st x = Inr st"
  by (simp add: route_def)

lemma route_described:
  assumes r: "route st x = Inr st1"
    and nh: "\<not> is_H4 x"
    and inv: "curr_type st \<noteq> [] \<and> curr_name st \<noteq> [] \<longrightarrow>
      (\<exists>e. get_entity (items st) (curr_type st) (curr_name st) = Some e
          \<and> (description e \<noteq> None) = paragraph_since_header pre)"
  shows "curr_type st1 \<noteq> [] \<and> curr_name st1 \<noteq> [] \<longrightarrow>
      (\<exists>e. get_entity (items st1) (curr_type st1) (curr_name st1) = Some e
          \<and> (description e \<noteq> None) = paragraph_since_header (pre @ [x]))"
proof (cases "curr_type st = [] \<or> curr_name st = []")
  case True
  with r have "st1 = st" by (simp add: route_def)
  with True show ?thesis by auto
next
  case False
  with inv obtain e where e: "get_entity (items st) (curr_type st) (curr_name st) = Some e"
    and d: "(description e \<noteq> None) = paragraph_since_header pre"
    by auto
  from r False obtain its1 where del: "deliver st x = Inr its1"
    and inf: "infer_returns st its1 = Inr st1"
    by (auto simp: route_def split: sum.splits)
  from deliver_description [OF del e] obtain e1 where
    e1: "get_entity its1 (curr_type st) (curr_name st) = Some e1"
    and d1: "(description e1 \<noteq> None) = (description e \<noteq> None \<or> is_P x)"
    by blast
  from infer_returns_description [OF inf e1] obtain e2 where
    "curr_type st1 = curr_type st" "curr_name st1 = curr_name st"
    "get_entity (items st1) (curr_type st) (curr_name st) = Some e2"
    "description e2 = description e1"
    by blast
  with d d1 nh show ?thesis
    by (simp add: paragraph_since_header_snoc)
qed

lemma get_type_and_name_fresh:
  assumes "get_type_and_name tx a its = Inr (cn, ct, its1)"
  shows "cn \<noteq> [] \<and> (ct = TYPES \<or> ct = METHODS)
     \<and> (\<exists>e. get_entity its1 ct cn = Some e \<and> description e = None)"
proof -
  from assms obtain c cs where t: "tx = c # cs"
    by (cases tx) (auto simp: get_type_and_name_def)
  let ?ct = "if is_upper c then TYPES else METHODS"
  have ct: "?ct = METHODS \<or> ?ct = TYPES" by simp
  from assms t have "cn = tx" "ct = ?ct"
    and "its1 = put_entity its ?ct tx
       (if truthy (anchor_href a)
        then (new_entity tx)\<lparr>href := Some (API_URL @ the (anchor_href a))\<rparr>
        else new_entity tx)"
    by (auto simp: get_type_and_name_def Let_def)
  with t get_put_entity [OF ct] show ?thesis
    by (auto simp: new_entity_def)
qed

lemma step_described:
  assumes s: "step st x = Inr st1"
    and inv: "curr_type st \<noteq> [] \<and> curr_name st \<noteq> [] \<longrightarrow>
      (\<exists>e. get_entity (items st) (curr_type st) (curr_name st) = Some e
          \<and> (description e \<noteq> None) = paragraph_since_header pre)"
  shows "curr_type st1 \<noteq> [] \<and> curr_name st1 \<noteq> [] \<longrightarrow>
      (\<exists>e. get_entity (items st1) (curr_type st1) (curr_name st1) = Some e
          \<and> (description e \<noteq> None) = paragraph_since_header (pre @ [x]))"
proof (cases x)
  case H3
  with s have "st1 = st\<lparr>curr_name := [], curr_type := []\<rparr>"
    by (simp add: step_def route_def)
  then show ?thesis by simp
next
  case Hr
  with s have "st1 = st\<lparr>curr_name := [], curr_type := []\<rparr>"
    by (simp add: step_def route_def)
  then show ?thesis by simp
next
  case (H4 found tx)
  show ?thesis
  proof (cases found)
    case None
    with s H4 show ?thesis by (simp add: step_def)
  next
    case (Some a)
    show ?thesis
    proof (cases "truthy (anchor_name a) \<and> CHR ''-'' \<in> set (the (anchor_name a))")
      case True
      with s H4 Some have "st1 = st\<lparr>curr_name := [], curr_type := []\<rparr>"
        by (simp add: step_def)
      then show ?thesis by simp
    next
      case False
      with s H4 Some obtain cn ct its1 where
        g: "get_type_and_name tx a (items st) = Inr (cn, ct, its1)"
        and r: "route \<lparr>curr_type = ct, curr_name = cn, items = its1\<rparr> x = Inr st1"
        by (auto simp: step_def split: sum.splits)
      let ?st = "\<lparr>curr_type = ct, curr_name = cn, items = its1\<rparr>"
      from get_type_and_name_fresh [OF g] obtain e where
        o: "cn \<noteq> []" "ct = TYPES \<or> ct = METHODS"
        and e: "get_entity its1 ct cn = Some e" and d: "description e = None"
        by blast
      from o have ne: "ct \<noteq> []" by (auto simp: TYPES_def METHODS_def)
      from r H4 o ne have inf: "infer_returns ?st its1 = Inr st1"
        by (simp add: route_def deliver_def)
      from e have e': "get_entity its1 (curr_type ?st) (curr_name ?st) = Some e" by simp
      from infer_returns_description [OF inf e'] d H4 show ?thesis
        by (auto simp: paragraph_since_header_snoc)
    qed
  qed
next
  case (P t)
  with s have "route st x = Inr st1" by (simp add: step_def)
  from route_described [OF this _ inv] P show ?thesis by simp
next
  case (Table tb)
  with s have "route st x = Inr st1" by (simp add: step_def)
  from route_described [OF this _ inv] Table show ?thesis by simp
next
  case (Ul lis)
  with s have "route st x = Inr st1" by (simp add: step_def)
  from route_described [OF this _ inv] Ul show ?thesis by simp
next
  case Other
  with s have "route st x = Inr st1" by (simp add: step_def)
  from route_described [OF this _ inv] Other show ?thesis by simp
qed

lemma run_nodes_described:
  assumes "run_nodes st xs = Inr st1"
    and "curr_type st \<noteq> [] \<and> curr_name st \<noteq> [] \<longrightarrow>
      (\<exists>e. get_entity (items st) (curr_type st) (curr_name st) = Some e
          \<and> (description e \<noteq> None) = paragraph_since_header pre)"
  shows "curr_type st1 \<noteq> [] \<and> curr_name st1 \<noteq> [] \<longrightarrow>
      (\<exists>e. get_entity (items st1) (curr_type st1) (curr_name st1) = Some e
          \<and> (description e \<noteq> None) = paragraph_since_header (pre @ xs))"
  using assms
proof (induction xs arbitrary: st pre)
  case Nil
  then show ?case by simp
next
  case (Cons x xs)
  from Cons.prems(1) obtain st2 where s: "step st x = Inr st2"
    and r: "run_nodes st2 xs = Inr st1"
    by (auto split: sum.splits)
  from Cons.IH [OF r step_described [OF s Cons.prems(2)]] show ?case by simp
qed

lemma open_entity_described:
  assumes "run_nodes initial_context pre = Inr st"
    and "curr_type st \<noteq> []" and "curr_name st \<noteq> []"
  shows "\<exists>e. get_entity (items st) (curr_type st) (curr_name st) = Some e
          \<and> (description e \<noteq> None) = paragraph_since_header pre"
  using run_nodes_described [OF assms(1), of "[]"] assms(2,3)
  by (simp add: initial_context_def)

text \<open>
  Where the early return of \<open>get_subtypes\<close> is not taken: when a list node goes to an
  open entity and no paragraph has come since the header of the entity (the key
  \<open>description\<close> is absent), the append raises KeyError, nothing catches it and the
  run ends with status 1 and no file, whatever follows; when a paragraph has come, the
  list node is passed.
\<close>

lemma list_before_paragraph_KeyError:
  assumes "run_nodes initial_context pre = Inr st"
    and "curr_type st \<noteq> []" and "curr_name st \<noteq> []"
    and "curr_name st \<noteq> ''InputFile''"
  shows "(\<not> paragraph_since_header pre \<longrightarrow>
            retrieve_api_info (pre @ Ul lis # post) = Inl (KeyError, [])
          \<and> main (pre @ Ul lis # post) = \<lparr>exit_status = 1, stdout = [], artifact = None\<rparr>)
       \<and> (paragraph_since_header pre \<longrightarrow>
            (\<exists>st1. run_nodes initial_context (pre @ [Ul lis]) = Inr st1))"
proof -
  from open_entity_described [OF assms(1-3)] obtain e where
    e: "get_entity (items st) (curr_type st) (curr_name st) = Some e"
    and d: "(description e \<noteq> None) = paragraph_since_header pre"
    by blast
  have step: "step st (Ul lis) = route st (Ul lis)"
    by (simp add: step_def)
  have "retrieve_api_info (pre @ Ul lis # post) = Inl (KeyError, [])
      \<and> main (pre @ Ul lis # post) = \<lparr>exit_status = 1, stdout = [], artifact = None\<rparr>"
    if "\<not> paragraph_since_header pre"
  proof -
    from that d e have "\<forall>e. get_entity (items st) (curr_type st) (curr_name st) = Some e
        \<longrightarrow> description e = None"
      by auto
    from get_subtypes_KeyError [OF assms(4) this]
    have "route st (Ul lis) = Inl (KeyError, [])"
      using assms(2,3) by (simp add: route_def deliver_def)
    then have "run_nodes initial_context (pre @ Ul lis # post) = Inl (KeyError, [])"
      by (simp add: run_nodes_append assms(1) step)
    then show ?thesis
      by (simp add: main_def retrieve_api_info_def exit_status_of_def)
  qed
  moreover have "\<exists>st1. run_nodes initial_context (pre @ [Ul lis]) = Inr st1"
    if "paragraph_since_header pre"
  proof -
    from that d obtain ds where ds: "description e = Some ds" by auto
    from get_subtypes_total [OF e ds] obtain its1 where
      g: "get_subtypes (curr_name st) (curr_type st) lis (items st) = Inr its1"
      by blast
    from get_subtypes_description [OF g e] obtain e1 where
      "get_entity its1 (curr_type st) (curr_name st) = Some e1"
      by blast
    from infer_returns_total [OF this] obtain st1 where "infer_returns st its1 = Inr st1"
      by blast
    with g assms(2,3) have "route st (Ul lis) = Inr st1"
      by (simp add: route_def deliver_def)
    then show ?thesis
      by (simp add: run_nodes_append assms(1) step)
  qed
  ultimately show ?thesis by blast
qed

lemma list_before_paragraph_KeyError_examples:
  "(\<exists>st. run_nodes initial_context chat_member_header = Inr st
      \<and> curr_type st \<noteq> [] \<and> curr_name st \<noteq> [] \<and> curr_name st \<noteq> ''InputFile''
      \<and> \<not> paragraph_since_header chat_member_header
      \<and> ((\<not> paragraph_since_header chat_member_header \<longrightarrow>
            retrieve_api_info (chat_member_header @ Ul [''ChatMemberOwner''] # [P ''Never read.''])
              = Inl (KeyError, [])
          \<and> main (chat_member_header @ Ul [''ChatMemberOwner''] # [P ''Never read.''])
              = \<lparr>exit_status = 1, stdout = [], artifact = None\<rparr>)
       \<and> (paragraph_since_header chat_member_header \<longrightarrow>
            (\<exists>st1. run_nodes initial_context (chat_member_header @ [Ul [''ChatMemberOwner'']])
                    = Inr st1))))
   \<and> (\<exists>st. run_nodes initial_context message_header = Inr st
      \<and> curr_type st \<noteq> [] \<and> curr_name st \<noteq> [] \<and> curr_name st \<noteq> ''InputFile''
      \<and> paragraph_since_header message_header
      \<and> ((\<not> paragraph_since_header message_header \<longrightarrow>
            retrieve_api_info (message_header @ Ul [''ChatMemberOwner''] # [P ''Never read.''])
              = Inl (KeyError, [])
          \<and> main (message_header @ Ul [''ChatMemberOwner''] # [P ''Never read.''])
              = \<lparr>exit_status = 1, stdout = [], artifact = None\<rparr>)
       \<and> (paragraph_since_header message_header \<longrightarrow>
            (\<exists>st1. run_nodes initial_context (message_header @ [Ul [''ChatMemberOwner'']])
                    = Inr st1))))"
proof -
  let ?c = "\<lparr>curr_type = ''types'', curr_name = ''ChatMember'',
     items = \<lparr>methods = [], types = [(''ChatMember'',
        \<lparr>name = ''ChatMember'', href = Some ''https://core.telegram.org/bots/api#chatmember'',
         description = None,
         entity_fields = None, subtypes = None, subtype_of = None, returns = None\<rparr>)]\<rparr>\<rparr>"
  let ?m = "\<lparr>curr_type = ''types'', curr_name = ''Message'',
     items = \<lparr>methods = [], types = [(''Message'',
        \<lparr>name = ''Message'', href = Some ''https://core.telegram.org/bots/api#message'',
         description = Some [''This object represents a message.''],
         entity_fields = None, subtypes = None, subtype_of = None, returns = None\<rparr>)]\<rparr>\<rparr>"
  have c1: "run_nodes initial_context chat_member_header = Inr ?c"
    by code_simp
  have c2: "curr_type ?c \<noteq> []" and c3: "curr_name ?c \<noteq> []"
    and c4: "curr_name ?c \<noteq> ''InputFile''"
    by simp_all
  have c5: "\<not> paragraph_since_header chat_member_header"
    by code_simp
  have m1: "run_nodes initial_context message_header = Inr ?m"
    by code_simp
  have m2: "curr_type ?m \<noteq> []" and m3: "curr_name ?m \<noteq> []"
    and m4: "curr_name ?m \<noteq> ''InputFile''"
    by simp_all
  have m5: "paragraph_since_header message_header"
    by code_simp
  show ?thesis
    by (rule conjI; rule exI; intro conjI)
      (rule c1, rule c2, rule c3, rule c4, rule c5,
       rule list_before_paragraph_KeyError [OF c1 c2 c3 c4, THEN conjunct1],
       rule list_before_paragraph_KeyError [OF c1 c2 c3 c4, THEN conjunct2],
       rule m1, rule m2, rule m3, rule m4, rule m5,
       rule list_before_paragraph_KeyError [OF m1 m2 m3 m4, THEN conjunct1],
       rule list_before_paragraph_KeyError [OF m1 m2 m3 m4, THEN conjunct2])
qed

text \<open>
  C10 fails on the code for the entity \<open>InputFile\<close>: its list is the first node after
  its header and no paragraph has created the key \<open>description\<close>, but \<open>get_subtypes\<close>
  returns for that name before the statement that appends to the description (the
  return that also keeps the list of \<open>InputFile\<close> out of its description, against the
  comment on that statement), so no KeyError is raised and the extraction completes.
  The same list under the header of \<open>InputMedia\<close> raises the KeyError.
\<close>

theorem InputFile_list_without_paragraph:
  "\<not> paragraph_since_header [H4 (Some (link ''inputfile'')) ''InputFile'']
   \<and> retrieve_api_info
      [H4 (Some (link ''inputfile'')) ''InputFile'', Ul [''a file_id'', ''an HTTP URL'']] =
     Inr \<lparr>methods = [],
          types = [(''InputFile'',
             \<lparr>name = ''InputFile'', href = Some ''https://core.telegram.org/bots/api#inputfile'',
              description = None,
              entity_fields = None, subtypes = None, subtype_of = None, returns = None\<rparr>)]\<rparr>
   \<and> retrieve_api_info
      [H4 (Some (link ''inputmedia'')) ''InputMedia'', Ul [''a file_id'', ''an HTTP URL'']] =
     Inl (KeyError, [])"
  by code_simp

section \<open>Properties of the types pass\<close>

lemma grown_refl: "grown e e"
  by (simp add: grown_def)

lemma grown_trans: "grown e e1 \<Longrightarrow> grown e1 e2 \<Longrightarrow> grown e e2"
  unfolding grown_def
  by (metis (no_types, lifting) entity.surjective entity.update_convs(6) subset_trans)

lemma evolves_refl: "evolves r r"
  by (simp add: evolves_def option.rel_refl grown_refl)

lemma evolves_trans: "evolves r r1 \<Longrightarrow> evolves r1 r2 \<Longrightarrow> evolves r r2"
  unfolding evolves_def
proof (intro conjI allI)
  fix k
  assume a: "methods r1 = methods r \<and> map fst (types r1) = map fst (types r) \<and>
       (\<forall>k. rel_option grown (map_of (types r) k) (map_of (types r1) k))"
    and b: "methods r2 = methods r1 \<and> map fst (types r2) = map fst (types r1) \<and>
       (\<forall>k. rel_option grown (map_of (types r1) k) (map_of (types r2) k))"
  from a b have "rel_option grown (map_of (types r) k) (map_of (types r1) k)"
    "rel_option grown (map_of (types r1) k) (map_of (types r2) k)" by auto
  then show "rel_option grown (map_of (types r) k) (map_of (types r2) k)"
    by (cases "map_of (types r) k"; cases "map_of (types r1) k"; cases "map_of (types r2) k")
       (auto intro: grown_trans)
qed auto

lemma evolves_same_keys: "evolves r r1 \<Longrightarrow> same_keys r r1"
  unfolding evolves_def same_keys_def
  by (metis option.rel_distinct(1) option.rel_distinct(2) option.exhaust)

lemma evolves_lookup:
  assumes "evolves r r1" and "map_of (types r) k = Some e"
  shows "\<exists>e1. map_of (types r1) k = Some e1 \<and> grown e e1"
  using assms unfolding evolves_def
  by (metis option.rel_sel option.sel option.simps(3) option.exhaust_sel)

lemma report_reg [simp]: "reg (report l vs) = reg vs"
  by (simp add: report_def)

lemma type_fields_loop_reg [simp]: "reg (type_fields_loop t fs vs) = reg vs"
  by (induction fs arbitrary: t vs) (auto simp: Let_def)

lemma update_evolves:
  assumes "map_of (types r) st = Some e"
  shows "evolves r (r\<lparr>types := AList.update st
            (e\<lparr>subtype_of := Some (get_or_empty (subtype_of e) @ [t])\<rparr>) (types r)\<rparr>)"
proof -
  from assms have "st \<in> fst ` set (types r)"
    by (metis map_of_eq_None_iff option.simps(3))
  then have "map fst (AList.update st
      (e\<lparr>subtype_of := Some (get_or_empty (subtype_of e) @ [t])\<rparr>) (types r)) = map fst (types r)"
    by (simp add: update_keys)
  moreover have "rel_option grown (map_of (types r) k)
      (map_of (AList.update st
         (e\<lparr>subtype_of := Some (get_or_empty (subtype_of e) @ [t])\<rparr>) (types r)) k)" for k
    using assms
    by (cases "k = st")
       (auto simp: update_conv' grown_def get_or_empty_def option.rel_refl split: option.splits)
  ultimately show ?thesis
    by (simp add: evolves_def)
qed

lemma subtypes_loop_evolves: "evolves (reg vs) (reg (subtypes_loop t sts vs))"
proof (induction sts arbitrary: vs)
  case Nil
  show ?case by (simp add: evolves_refl)
next
  case (Cons st sts)
  show ?case
  proof (cases "map_of (types (reg vs)) st")
    case None
    with Cons [of "report (''TYPE '' @ t @ '' USES INVALID SUBTYPE '' @ st) vs"]
    show ?thesis by simp
  next
    case (Some e)
    let ?vs = "vs\<lparr>reg := (reg vs)\<lparr>types := AList.update st
        (e\<lparr>subtype_of := Some (get_or_empty (subtype_of e) @ [t])\<rparr>) (types (reg vs))\<rparr>\<rparr>"
    from update_evolves [OF Some] have "evolves (reg vs) (reg ?vs)" by simp
    from evolves_trans [OF this Cons [of ?vs]] Some show ?thesis by simp
  qed
qed

lemma verify_type_evolves: "evolves (reg vs) (reg (verify_type t vs))"
  using subtypes_loop_evolves [of vs t]
  by (auto simp: verify_type_def Let_def evolves_refl split: option.splits)

lemma foldl_verify_type_evolves:
  "evolves (reg vs) (reg (foldl (\<lambda>vs t. verify_type t vs) vs ks))"
proof (induction ks arbitrary: vs)
  case Nil
  show ?case by (simp add: evolves_refl)
next
  case (Cons k ks)
  from evolves_trans [OF verify_type_evolves Cons] show ?case by simp
qed

lemma evolves_contains:
  assumes "evolves r r1" and "map_of (types r) k = Some e"
    and "t \<in> set (get_or_empty (subtype_of e))"
  shows "\<exists>e1. map_of (types r1) k = Some e1 \<and> t \<in> set (get_or_empty (subtype_of e1))"
  using evolves_lookup [OF assms(1,2)] assms(3)
  by (auto simp: grown_def)

lemma subtypes_loop_adds:
  assumes "B \<in> set sts" and "map_of (types (reg vs)) B \<noteq> None"
  shows "\<exists>eb. map_of (types (reg (subtypes_loop t sts vs))) B = Some eb
     \<and> t \<in> set (get_or_empty (subtype_of eb))"
  using assms
proof (induction sts arbitrary: vs)
  case Nil
  then show ?case by simp
next
  case (Cons st sts)
  show ?case
  proof (cases "st = B")
    case True
    from Cons.prems(2) obtain e where e: "map_of (types (reg vs)) B = Some e" by auto
    let ?vs = "vs\<lparr>reg := (reg vs)\<lparr>types := AList.update B
        (e\<lparr>subtype_of := Some (get_or_empty (subtype_of e) @ [t])\<rparr>) (types (reg vs))\<rparr>\<rparr>"
    have "map_of (types (reg ?vs)) B =
        Some (e\<lparr>subtype_of := Some (get_or_empty (subtype_of e) @ [t])\<rparr>)"
      by (simp add: update_conv')
    from evolves_contains [OF subtypes_loop_evolves this, of t t sts] True e
    show ?thesis by (simp add: get_or_empty_def)
  next
    case False
    with Cons.prems(1) have B: "B \<in> set sts" by simp
    let ?vs = "case map_of (types (reg vs)) st of
          Some e \<Rightarrow>
            vs\<lparr>reg := (reg vs)\<lparr>types :=
                  AList.update st (e\<lparr>subtype_of := Some (get_or_empty (subtype_of e) @ [t])\<rparr>)
                    (types (reg vs))\<rparr>\<rparr>
        | None \<Rightarrow> report (''TYPE '' @ t @ '' USES INVALID SUBTYPE '' @ st) vs"
    from False Cons.prems(2) have "map_of (types (reg ?vs)) B \<noteq> None"
      by (auto simp: update_conv' split: option.splits)
    from Cons.IH [OF B this] show ?thesis by simp
  qed
qed

lemma grown_same:
  "grown e e1 \<Longrightarrow> href e1 = href e \<and> entity_fields e1 = entity_fields e \<and> subtypes e1 = subtypes e"
  unfolding grown_def
  by (metis entity.ext_inject entity.surjective entity.update_convs(6))

lemma verify_type_adds:
  assumes a: "map_of (types (reg vs)) A = Some ea"
    and h: "truthy (href ea)" and f: "get_or_empty (entity_fields ea) = []"
    and s: "B \<in> set (get_or_empty (subtypes ea))"
    and b: "map_of (types (reg vs)) B \<noteq> None"
  shows "\<exists>eb. map_of (types (reg (verify_type A vs))) B = Some eb
     \<and> A \<in> set (get_or_empty (subtype_of eb))"
proof -
  from s have ne: "get_or_empty (subtypes ea) \<noteq> []" by auto
  from a h f ne have "verify_type A vs =
      type_fields_loop A [] (subtypes_loop A (get_or_empty (subtypes ea)) vs)"
    by (simp add: verify_type_def Let_def)
  with subtypes_loop_adds [OF s b, of A] show ?thesis by simp
qed

text \<open>
  C6, as stated, fails: the type \<open>ChatMember\<close> has a table and a list, so it has
  fields and the subtype \<open>ChatMemberOwner\<close>, which is a type of the registry; the
  validator finds no defect, and as it reads the subtypes only of a type without fields,
  \<open>ChatMemberOwner\<close> gets no \<open>subtype_of\<close>.
\<close>

theorem fields_block_back_reference:
  "retrieve_api_info fields_doc = Inr fields_registry
   \<and> issue_found (verify_type_parameters fields_registry) = False
   \<and> map_option subtypes (map_of (types (reg (verify_type_parameters fields_registry)))
        ''ChatMember'') = Some (Some [''ChatMemberOwner''])
   \<and> map_option subtype_of (map_of (types (reg (verify_type_parameters fields_registry)))
        ''ChatMemberOwner'') = Some None
   \<and> artifact (main fields_doc) = Some fields_registry"
  by code_simp

text \<open>
  C6, amended: for every pair of type entities A and B such that A has a link and no
  fields, the subtypes of A contain the name of B and B is a key of the types registry,
  after the types pass of the validator the \<open>subtype_of\<close> of B contains the name of A.
\<close>

theorem subtype_back_reference:
  assumes a: "map_of (types r) A = Some ea"
    and h: "truthy (href ea)" and f: "get_or_empty (entity_fields ea) = []"
    and s: "B \<in> set (get_or_empty (subtypes ea))"
    and b: "map_of (types r) B \<noteq> None"
  shows "\<exists>eb. map_of (types (reg (verify_type_parameters r))) B = Some eb
     \<and> A \<in> set (get_or_empty (subtype_of eb))"
proof -
  let ?f = "\<lambda>vs t. verify_type t vs"
  from a have "A \<in> set (map fst (types r))"
    by (metis map_of_eq_None_iff option.simps(3) set_map)
  then obtain ks1 ks2 where ks: "map fst (types r) = ks1 @ A # ks2"
    by (auto dest: split_list)
  let ?v1 = "foldl ?f (fresh r) ks1"
  have ev1: "evolves r (reg ?v1)"
    using foldl_verify_type_evolves [of "fresh r" ks1] by (simp add: fresh_def)
  from evolves_lookup [OF ev1 a] obtain ea1 where
    a1: "map_of (types (reg ?v1)) A = Some ea1" and g: "grown ea ea1"
    by blast
  from grown_same [OF g] h f s have
    h1: "truthy (href ea1)" and f1: "get_or_empty (entity_fields ea1) = []"
    and s1: "B \<in> set (get_or_empty (subtypes ea1))"
    by simp_all
  have "(map_of (types r) B = None) = (map_of (types (reg ?v1)) B = None)"
    using evolves_same_keys [OF ev1] unfolding same_keys_def by (rule spec)
  with b have b1: "map_of (types (reg ?v1)) B \<noteq> None"
    by simp
  from verify_type_adds [OF a1 h1 f1 s1 b1] obtain eb where
    eb: "map_of (types (reg (verify_type A ?v1))) B = Some eb"
    and m: "A \<in> set (get_or_empty (subtype_of eb))"
    by blast
  have "verify_type_parameters r = foldl ?f (verify_type A ?v1) ks2"
    by (simp add: verify_type_parameters_def ks fresh_def)
  with evolves_contains [OF foldl_verify_type_evolves eb m, of ks2]
  show ?thesis by simp
qed

theorem subtype_back_reference_witness:
  "map_of (types parent_registry) ''ChatMember'' =
     Some ((new_entity ''ChatMember'')
            \<lparr>href := Some (API_URL @ ''#chatmember''),
             subtypes := Some [''ChatMemberOwner'']\<rparr>)
   \<and> (\<exists>eb. map_of (types (reg (verify_type_parameters parent_registry))) ''ChatMemberOwner''
             = Some eb
          \<and> ''ChatMember'' \<in> set (get_or_empty (subtype_of eb)))"
proof -
  let ?ea = "(new_entity ''ChatMember'')
            \<lparr>href := Some (API_URL @ ''#chatmember''),
             subtypes := Some [''ChatMemberOwner'']\<rparr>"
  have a: "map_of (types parent_registry) ''ChatMember'' = Some ?ea"
    by (simp add: parent_registry_def)
  have h: "truthy (href ?ea)"
    by (simp add: truthy_def API_URL_def ROOT_URL_def)
  have f: "get_or_empty (entity_fields ?ea) = []"
    by (simp add: get_or_empty_def new_entity_def)
  have s: "''ChatMemberOwner'' \<in> set (get_or_empty (subtypes ?ea))"
    by (simp add: get_or_empty_def)
  have b: "map_of (types parent_registry) ''ChatMemberOwner'' \<noteq> None"
    by (simp add: parent_registry_def)
  show ?thesis
    by (rule conjI [OF a subtype_back_reference [OF a h f s b]])
qed

text \<open>
  C2 fails on the code in the types pass: the field \<open>photo\<close> of the type \<open>Chat\<close> has
  the types \<open>ChatPhoto\<close> and \<open>String\<close>; the test of the types pass comes after the
  loop over the types of the field and sees the last one only, so the run ends with
  status 0 and writes the registry, in which \<open>ChatPhoto\<close> is neither a core type nor
  a key. The methods pass tests inside the loop: the same cell in the table of a method
  is reported and the run fails.
\<close>

theorem union_member_unchecked:
  "main union_doc = \<lparr>exit_status = 0, stdout = [], artifact = Some union_registry\<rparr>
   \<and> strip_arrays ''ChatPhoto'' = ''ChatPhoto''
   \<and> ''ChatPhoto'' \<notin> set TG_CORE_TYPES
   \<and> map_of (types union_registry) ''ChatPhoto'' = None
   \<and> main union_method_doc =
       \<lparr>exit_status = 1, stdout = [''UNKNOWN PARAM TYPE ChatPhoto'', failed_line],
        artifact = None\<rparr>"
  by code_simp

section \<open>Properties of the validator as a whole\<close>




lemma printed_report [simp]: "printed (report l vs) = printed vs @ [l]"
  by (simp add: report_def)

lemma issue_found_report [simp]: "issue_found (report l vs) = True"
  by (simp add: report_def)








lemma param_types_loop_reg [simp]: "reg (param_types_loop ts vs) = reg vs"
  by (induction ts arbitrary: vs) (auto simp: Let_def)

lemma method_fields_loop_reg [simp]: "reg (method_fields_loop fs vs) = reg vs"
  by (induction fs arbitrary: vs) auto

lemma returns_loop_reg [simp]: "reg (returns_loop rets vs) = reg vs"
  by (induction rets arbitrary: vs) (auto simp: Let_def)











end
